theory Spec2Isabelle
  imports Complex_Main "HOL-Library.AList" "HOL-Library.Multiset" "HOL-Library.Product_Lexorder"
begin

section \<open>Data model of \<open>mishards/service_handler.py\<close>\<close>

text \<open>
  A distance is a Python float. Only its ordering matters to the handler, so a float is
  either a number or NaN. Python's \<open><\<close> on floats is the order of the numbers and is
  false as soon as one side is NaN.
\<close>

datatype pyfloat = Num real | NaN

fun float_lt :: "pyfloat \<Rightarrow> pyfloat \<Rightarrow> bool" where
  "float_lt (Num a) (Num b) = (a < b)"
| "float_lt _ _ = False"

text \<open>The protobuf messages the merger reads: a row, a block of rows, a status.\<close>

datatype QueryResult = QueryResult (row_id: int) (distance: pyfloat)

datatype TopKQueryResult = TopKQueryResult (query_result_arrays: "QueryResult list")

datatype Status = Status (error_code: int) (reason: string)

definition SUCCESS :: int where
  "SUCCESS = 0"

definition OK :: "Status \<Rightarrow> bool" where
  "OK st = (error_code st = SUCCESS)"

datatype TopKQueryResultList =
  TopKQueryResultList (status: Status) (topk_query_result: "TopKQueryResult list")

text \<open>
  What a sub-query leaves in \<open>all_topk_results\<close>: the backend's response object, or a
  Python tuple \<open>(status, payload)\<close>.
\<close>

datatype files_collection =
    Tuple Status "TopKQueryResult list"
  | Response TopKQueryResultList

fun is_tuple :: "files_collection \<Rightarrow> bool" where
  "is_tuple (Tuple st payload) = True"
| "is_tuple (Response r) = False"

fun blocks_of :: "files_collection \<Rightarrow> TopKQueryResult list" where
  "blocks_of (Tuple st payload) = []"
| "blocks_of (Response r) = topk_query_result r"

section \<open>Python built-ins used by the merger\<close>

text \<open>
  \<open>sorted(xs, key=k, reverse=r)\<close> is stable and compares keys with \<open><\<close> only. It is
  modelled as an insertion sort asking the same question: an element is put in front of
  the first one whose key is not less than its own. When \<open><\<close> is a total order on the
  keys (no NaN), a stable sort has one possible result, so this is the list Python
  returns. With \<open>reverse=True\<close> Python reverses the list, sorts it and reverses the
  result, which keeps equal keys in their original order. With NaN among the keys the
  result depends on the sorting algorithm; what is stated below about such lists concerns
  lists in which no key is less than the key before it, which CPython's run detection
  hands back unchanged, as this model does.
\<close>

fun insort_lt :: "('a \<Rightarrow> pyfloat) \<Rightarrow> 'a \<Rightarrow> 'a list \<Rightarrow> 'a list" where
  "insort_lt key x [] = [x]"
| "insort_lt key x (y # ys) =
     (if float_lt (key y) (key x) then y # insort_lt key x ys else x # y # ys)"

definition sort_lt :: "('a \<Rightarrow> pyfloat) \<Rightarrow> 'a list \<Rightarrow> 'a list" where
  "sort_lt key xs = foldr (insort_lt key) xs []"

definition py_sorted :: "('a \<Rightarrow> pyfloat) \<Rightarrow> bool \<Rightarrow> 'a list \<Rightarrow> 'a list" where
  "py_sorted key reverse xs =
     (if reverse then rev (sort_lt key (rev xs)) else sort_lt key xs)"

text \<open>The slice \<open>xs[:k]\<close>: a negative \<open>k\<close> counts from the end.\<close>

definition py_slice_to :: "int \<Rightarrow> 'a list \<Rightarrow> 'a list" where
  "py_slice_to k xs =
     (if k < 0 then take (nat (int (length xs) + k)) xs else take (nat k) xs)"

text \<open>
  \<open>request_results\<close> is a \<open>defaultdict(list)\<close> keyed by the query position. It is kept
  as an association list in insertion order; reading a missing key gives \<open>[]\<close>.
\<close>

type_synonym request_results = "(nat \<times> QueryResult list) list"

definition dict_get :: "request_results \<Rightarrow> nat \<Rightarrow> QueryResult list" where
  "dict_get d k = (case map_of d k of None \<Rightarrow> [] | Some v \<Rightarrow> v)"

section \<open>\<open>ServiceHandler._do_merge\<close>\<close>

text \<open>
  The inner loop over \<open>enumerate(files_collection.topk_query_result)\<close>: the rows of the
  block are appended to the rows kept for that position, the whole is sorted by distance
  and cut to \<open>topk\<close>.
\<close>

fun merge_requests ::
  "int \<Rightarrow> bool \<Rightarrow> (nat \<times> TopKQueryResult) list \<Rightarrow> request_results \<Rightarrow> request_results" where
  "merge_requests topk reverse [] d = d"
| "merge_requests topk reverse ((request_pos, each_request_results) # rest) d =
     merge_requests topk reverse rest
       (AList.update request_pos
          (py_slice_to topk
             (py_sorted distance reverse
                (dict_get d request_pos @ query_result_arrays each_request_results)))
          d)"

text \<open>
  The outer loop over \<open>files_n_topk_results\<close>. The first tuple met ends the function with
  the tuple's status (\<open>Inl\<close>); its status code is not looked at.
\<close>

fun merge_files ::
  "int \<Rightarrow> bool \<Rightarrow> files_collection list \<Rightarrow> request_results \<Rightarrow> Status + request_results" where
  "merge_files topk reverse [] d = Inr d"
| "merge_files topk reverse (Tuple st payload # rest) d = Inl st"
| "merge_files topk reverse (Response r # rest) d =
     merge_files topk reverse rest
       (merge_requests topk reverse (enumerate 0 (topk_query_result r)) d)"

text \<open>
  \<open>sorted(request_results.items())\<close> orders the entries by position; the keys of a dict
  are distinct, so the comparison of two entries never reaches the row lists.
\<close>

definition do_merge ::
  "files_collection list \<Rightarrow> int \<Rightarrow> bool \<Rightarrow> Status \<times> TopKQueryResult list" where
  "do_merge files_n_topk_results topk reverse =
     (let status = Status SUCCESS ''Success'' in
      if files_n_topk_results = [] then (status, [])
      else
        (case merge_files topk reverse files_n_topk_results [] of
           Inl st \<Rightarrow> (st, [])
         | Inr request_results \<Rightarrow>
             (status,
              map (\<lambda>result. TopKQueryResult (snd result)) (sort_key fst request_results))))"

section \<open>\<open>ServiceHandler._do_query\<close> and \<open>ServiceHandler.Search\<close>\<close>

datatype MetricType = L2 | IP

datatype TableSchema =
  TableSchema (schema_table_name: string) (dimension: int) (index_file_size: int)
    (metric_type: MetricType)

datatype SearchParam =
  SearchParam (table_name: string) (query_record_array: "pyfloat list list")
    (query_range_array: "(string \<times> string) list") (req_topk: int) (req_nprobe: int)

text \<open>
  The collaborators of the handler are not part of these sources: the router with its
  connections, \<open>utilities.range_to_date\<close> and the order in which the worker threads append
  their results. They are parameters of the model, each a function that returns.
  A routing plan maps an address to \<open>(table_id, file_ids)\<close>.
\<close>

record collaborators =
  describe_table :: "string \<Rightarrow> Status \<times> TableSchema"
  range_to_date :: "string \<times> string \<Rightarrow> int \<times> int"
  routing :: "string \<Rightarrow> (int \<times> int) list option \<Rightarrow> (string \<times> string \<times> string list) list"
  search_vectors_in_files ::
    "string \<Rightarrow> string \<Rightarrow> string list \<Rightarrow> pyfloat list list \<Rightarrow> int \<Rightarrow> int \<Rightarrow> files_collection"
  append_order :: "files_collection list \<Rightarrow> files_collection list"

text \<open>The calls a request makes to the backends, in the order they are issued.\<close>

datatype backend_call =
    DescribeTable string
  | Routing string
  | SearchVectorsInFiles string

definition MAX_NPROBE :: int where
  "MAX_NPROBE = 2048"

definition MAX_TOPK :: int where
  "MAX_TOPK = 2048"

text \<open>The exceptions \<open>Search\<close> raises, each with the value its message is built from.\<close>

datatype exn =
    InvalidArgumentError int
  | InvalidTopKError int
  | TableNotFoundError string

definition do_query ::
  "collaborators \<Rightarrow> string \<Rightarrow> TableSchema \<Rightarrow> pyfloat list list \<Rightarrow> int \<Rightarrow> int \<Rightarrow>
   (string \<times> string) list \<Rightarrow> (Status \<times> TopKQueryResult list) \<times> backend_call list" where
  "do_query env table_id table_meta vectors topk nprobe range_array =
     (let range_array' =
            (if range_array \<noteq> [] then Some (map (range_to_date env) range_array) else None);
          plan = routing env table_id range_array';
          rs = map (\<lambda>(addr, query_params).
                      search_vectors_in_files env addr (fst query_params) (snd query_params)
                        vectors topk nprobe) plan;
          all_topk_results = append_order env rs;
          reverse = (metric_type table_meta = IP)
      in (do_merge all_topk_results topk reverse,
          Routing table_id # map (\<lambda>(addr, query_params). SearchVectorsInFiles addr) plan))"

text \<open>
  \<open>Search\<close> takes the request and the descriptor cache \<open>self.table_meta\<close>; it returns the
  response or the exception raised, the cache afterwards and the backend calls made.
\<close>

definition Search ::
  "collaborators \<Rightarrow> SearchParam \<Rightarrow> (string \<rightharpoonup> TableSchema) \<Rightarrow>
   (exn + TopKQueryResultList) \<times> (string \<rightharpoonup> TableSchema) \<times> backend_call list" where
  "Search env request cache =
     (let tname = table_name request; topk = req_topk request; nprobe = req_nprobe request in
      if nprobe > MAX_NPROBE \<or> nprobe \<le> 0 then (Inl (InvalidArgumentError nprobe), cache, [])
      else if topk > MAX_TOPK \<or> topk \<le> 0 then (Inl (InvalidTopKError topk), cache, [])
      else
        (case cache tname of
           None \<Rightarrow>
             (let (st, info) = describe_table env tname in
              if \<not> OK st then (Inl (TableNotFoundError tname), cache, [DescribeTable tname])
              else
                (let ((st', results), calls) =
                       do_query env tname info (query_record_array request) topk nprobe
                         (query_range_array request)
                 in (Inr (TopKQueryResultList (Status (error_code st') (reason st')) results),
                     cache(tname \<mapsto> info), DescribeTable tname # calls)))
         | Some table_meta \<Rightarrow>
             (let ((st', results), calls) =
                    do_query env tname table_meta (query_record_array request) topk nprobe
                      (query_range_array request)
              in (Inr (TopKQueryResultList (Status (error_code st') (reason st')) results),
                  cache, calls))))"

text \<open>
  Modelled from the spec: the module \<open>mishards.exceptions\<close> and the handlers that turn an
  exception into a status code are missing from the sources. The spec's taxonomy files a
  bounds violation under InvalidArgument and a table missing from the metadata under
  NotFound.
\<close>

datatype error_kind = InvalidArgument | NotFound

fun kind_of :: "exn \<Rightarrow> error_kind" where
  "kind_of (InvalidArgumentError n) = InvalidArgument"
| "kind_of (InvalidTopKError k) = InvalidArgument"
| "kind_of (TableNotFoundError t) = NotFound"

section \<open>Notions used to state the properties\<close>

text \<open>
  The number carried by a distance (the value at NaN is never used: every statement that
  reads it assumes the distance is a number), and the key by which rows are ordered:
  the distance itself, negated when the larger distance is the better one.
\<close>

fun num :: "pyfloat \<Rightarrow> real" where
  "num (Num a) = a"
| "num NaN = 0"

definition dkey :: "bool \<Rightarrow> QueryResult \<Rightarrow> real" where
  "dkey reverse r = (if reverse then - num (distance r) else num (distance r))"

definition numeric_rows :: "QueryResult list \<Rightarrow> bool" where
  "numeric_rows rows = list_all (\<lambda>r. distance r \<noteq> NaN) rows"

definition numeric_partials :: "files_collection list \<Rightarrow> bool" where
  "numeric_partials ps =
     list_all (\<lambda>P. list_all (\<lambda>b. numeric_rows (query_result_arrays b)) (blocks_of P)) ps"

text \<open>
  The rows a partial holds for position \<open>p\<close> (none when it has no such block), the rows
  all partials hold for \<open>p\<close> in the order of the partials, and the largest number of
  blocks among the partials.
\<close>

definition rows_at :: "files_collection \<Rightarrow> nat \<Rightarrow> QueryResult list" where
  "rows_at P p = (if p < length (blocks_of P) then query_result_arrays (blocks_of P ! p) else [])"

definition column :: "files_collection list \<Rightarrow> nat \<Rightarrow> QueryResult list" where
  "column ps p = concat (map (\<lambda>P. rows_at P p) ps)"

definition max_nq :: "files_collection list \<Rightarrow> nat" where
  "max_nq ps = foldr (\<lambda>P n. max (length (blocks_of P)) n) ps 0"

text \<open>
  One turn of the inner loop on the rows kept for a position, and the turns all partials
  make on position \<open>p\<close>, one after the other.
\<close>

definition merge_step ::
  "int \<Rightarrow> bool \<Rightarrow> QueryResult list \<Rightarrow> TopKQueryResult \<Rightarrow> QueryResult list" where
  "merge_step topk reverse acc b =
     py_slice_to topk (py_sorted distance reverse (acc @ query_result_arrays b))"

fun fold_column ::
  "int \<Rightarrow> bool \<Rightarrow> nat \<Rightarrow> files_collection list \<Rightarrow> QueryResult list \<Rightarrow> QueryResult list" where
  "fold_column topk reverse p [] acc = acc"
| "fold_column topk reverse p (P # ps) acc =
     fold_column topk reverse p ps
       (if p < length (blocks_of P) then merge_step topk reverse acc (blocks_of P ! p) else acc)"

text \<open>The merge of two sorted lists that takes from the left list on equal keys.\<close>

fun merge_key :: "('a \<Rightarrow> 'k::linorder) \<Rightarrow> 'a list \<Rightarrow> 'a list \<Rightarrow> 'a list" where
  "merge_key f [] ys = ys"
| "merge_key f (x # xs) [] = x # xs"
| "merge_key f (x # xs) (y # ys) =
     (if f x \<le> f y then x # merge_key f xs (y # ys) else y # merge_key f (x # xs) ys)"

text \<open>
  The result block as the spec words it: the rows of all partials at position \<open>p\<close>, each
  tagged with the index of its partial and its place in that partial's block, are sorted
  by distance (ascending for L2, descending for IP), then by partial index, then by place,
  and the first K are kept.
\<close>

definition tagged_column ::
  "files_collection list \<Rightarrow> nat \<Rightarrow> ((nat \<times> nat) \<times> QueryResult) list" where
  "tagged_column ps p =
     concat (map (\<lambda>(j, P). map (\<lambda>(i, r). ((j, i), r)) (enumerate 0 (rows_at P p)))
               (enumerate 0 ps))"

fun metric_key :: "MetricType \<Rightarrow> QueryResult \<Rightarrow> real" where
  "metric_key L2 r = num (distance r)"
| "metric_key IP r = - num (distance r)"

definition merged_reference ::
  "MetricType \<Rightarrow> nat \<Rightarrow> files_collection list \<Rightarrow> nat \<Rightarrow> QueryResult list" where
  "merged_reference metric K ps p =
     take K (map snd (sort_key (\<lambda>(t, r). (metric_key metric r, t)) (tagged_column ps p)))"

text \<open>
  The result of a merge packed as a backend response, so that it can be merged again, and
  the distances of a list of blocks, row by row.
\<close>

definition as_partial :: "Status \<times> TopKQueryResult list \<Rightarrow> files_collection" where
  "as_partial res = Response (TopKQueryResultList (fst res) (snd res))"

definition block_distances :: "TopKQueryResult list \<Rightarrow> pyfloat list list" where
  "block_distances bs = map (\<lambda>b. map distance (query_result_arrays b)) bs"

text \<open>Two shards answering two queries, with a tie between them on the first query.\<close>

definition shard_a :: files_collection where
  "shard_a = Response (TopKQueryResultList (Status 0 ''OK'')
     [TopKQueryResult [QueryResult 1 (Num (1/10)), QueryResult 5 (Num (2/10))],
      TopKQueryResult [QueryResult 2 (Num (4/10))]])"

definition shard_b :: files_collection where
  "shard_b = Response (TopKQueryResultList (Status 0 ''OK'')
     [TopKQueryResult [QueryResult 3 (Num (2/10))],
      TopKQueryResult [QueryResult 4 (Num (3/10)), QueryResult 6 (Num (5/10))]])"

text \<open>
  A backend for worked examples: it knows the table \<open>t1\<close> only, plans no shard for it
  and answers every sub-query with no block.
\<close>

definition demo_env :: collaborators where
  "demo_env =
     \<lparr>describe_table = (\<lambda>t. if t = ''t1'' then (Status 0 ''OK'', TableSchema ''t1'' 4 1024 L2)
                              else (Status 4 ''Table not exists'', TableSchema t 0 0 L2)),
      range_to_date = (\<lambda>r. (0, 0)),
      routing = (\<lambda>t ranges. []),
      search_vectors_in_files = (\<lambda>addr t files vectors topk nprobe.
                                   Response (TopKQueryResultList (Status 0 ''OK'') [])),
      append_order = (\<lambda>rs. rs)\<rparr>"

text \<open>
  The partials the sub-queries of a request leave in \<open>all_topk_results\<close>, and the table
  descriptor the request works with: the cached one, or else the one looked up.
\<close>

definition sub_results :: "collaborators \<Rightarrow> SearchParam \<Rightarrow> files_collection list" where
  "sub_results env request =
     append_order env
       (map (\<lambda>(addr, query_params).
               search_vectors_in_files env addr (fst query_params) (snd query_params)
                 (query_record_array request) (req_topk request) (req_nprobe request))
          (routing env (table_name request)
             (if query_range_array request \<noteq> []
              then Some (map (range_to_date env) (query_range_array request)) else None)))"

definition descriptor ::
  "collaborators \<Rightarrow> SearchParam \<Rightarrow> (string \<rightharpoonup> TableSchema) \<Rightarrow> TableSchema" where
  "descriptor env request cache =
     (case cache (table_name request) of
        Some table_meta \<Rightarrow> table_meta
      | None \<Rightarrow> snd (describe_table env (table_name request)))"

text \<open>
  A backend with two shards for every table, answering with the two shards above, and a
  request with two query vectors and K = 2.
\<close>

definition two_shard_env :: collaborators where
  "two_shard_env =
     \<lparr>describe_table = (\<lambda>t. (Status 0 ''OK'', TableSchema t 1 1024 L2)),
      range_to_date = (\<lambda>r. (0, 0)),
      routing = (\<lambda>t ranges. [(''a:19530'', t, [''1'']), (''b:19530'', t, [''2''])]),
      search_vectors_in_files = (\<lambda>addr t files vectors topk nprobe.
                                   if addr = ''a:19530'' then shard_a else shard_b),
      append_order = (\<lambda>rs. rs)\<rparr>"

definition two_query_request :: SearchParam where
  "two_query_request = SearchParam ''t1'' [[Num 1], [Num 2]] [] 2 16"

section \<open>Stable sorting and merging\<close>

lemma mset_merge_key: "mset (merge_key f xs ys) = mset xs + mset ys"
  by (induction f xs ys rule: merge_key.induct) simp_all

lemma set_merge_key: "set (merge_key f xs ys) = set xs \<union> set ys"
  by (induction f xs ys rule: merge_key.induct) auto

lemma sorted_merge_key:
  "sorted (map f xs) \<Longrightarrow> sorted (map f ys) \<Longrightarrow> sorted (map f (merge_key f xs ys))"
  by (induction f xs ys rule: merge_key.induct) (auto simp add: set_merge_key)

lemma filter_merge_key:
  "sorted (map f xs) \<Longrightarrow> sorted (map f ys) \<Longrightarrow>
   filter (\<lambda>z. f z = k) (merge_key f xs ys) = filter (\<lambda>z. f z = k) xs @ filter (\<lambda>z. f z = k) ys"
proof (induction f xs ys rule: merge_key.induct)
  case (1 f ys)
  then show ?case by simp
next
  case (2 f x xs)
  then show ?case by simp
next
  case (3 f x xs y ys)
  show ?case
  proof (cases "f x \<le> f y")
    case True
    with 3 show ?thesis by simp
  next
    case False
    have later: "filter (\<lambda>z. f z = f y) (x # xs) = []"
      using False "3.prems"(1) by (auto simp add: filter_empty_conv)
    from False 3 have "filter (\<lambda>z. f z = k) (merge_key f (x # xs) ys)
        = filter (\<lambda>z. f z = k) (x # xs) @ filter (\<lambda>z. f z = k) ys"
      by simp
    with False later show ?thesis by (cases "f y = k") auto
  qed
qed

lemma sort_key_append_merge:
  "sort_key f (xs @ ys) = merge_key f (sort_key f xs) (sort_key f ys)"
proof (rule properties_for_sort_key)
  show "mset (merge_key f (sort_key f xs) (sort_key f ys)) = mset (xs @ ys)"
    by (simp add: mset_merge_key)
  show "sorted (map f (merge_key f (sort_key f xs) (sort_key f ys)))"
    by (simp add: sorted_merge_key)
  fix k
  have "filter (\<lambda>z. f z = f k) (merge_key f (sort_key f xs) (sort_key f ys))
      = filter (\<lambda>z. f z = f k) (xs @ ys)"
    by (simp add: filter_merge_key sort_key_stable)
  then show "filter (\<lambda>x. f k = f x) (merge_key f (sort_key f xs) (sort_key f ys))
      = filter (\<lambda>x. f k = f x) (xs @ ys)"
    by (simp add: eq_commute [of "f k"])
qed

lemma merge_key_Nil2: "merge_key f xs [] = xs"
  by (cases xs) simp_all

lemma take_merge_key:
  "K \<le> n \<Longrightarrow> take K (merge_key f (take n xs) ys) = take K (merge_key f xs ys)"
proof (induction f xs ys arbitrary: K n rule: merge_key.induct)
  case (1 f ys)
  then show ?case by simp
next
  case (2 f x xs)
  have "merge_key f (take n (x # xs)) [] = take n (x # xs)"
    by (rule merge_key_Nil2)
  with 2 show ?case by (simp add: min_def)
next
  case (3 f x xs y ys)
  show ?case
  proof (cases K)
    case 0
    then show ?thesis by simp
  next
    case (Suc k)
    with "3.prems" obtain m where n: "n = Suc m" and km: "k \<le> m"
      by (cases n) auto
    show ?thesis
    proof (cases "f x \<le> f y")
      case True
      with "3.IH"(1) [of k m] km show ?thesis by (simp add: Suc n)
    next
      case False
      have "k \<le> n" using km n by simp
      with "3.IH"(2) [of k n] False show ?thesis by (simp add: Suc n)
    qed
  qed
qed

lemma take_sort_key_absorb:
  "take K (sort_key f (take K (sort_key f xs) @ ys)) = take K (sort_key f (xs @ ys))"
proof -
  have "sort_key f (take K (sort_key f xs)) = take K (sort_key f xs)"
    by (rule sort_key_id_if_sorted) (simp add: take_map [symmetric] sorted_wrt_take)
  then show ?thesis
    by (simp add: sort_key_append_merge take_merge_key)
qed

lemma rev_sort_key_rev:
  fixes f :: "'a \<Rightarrow> real"
  shows "rev (sort_key f (rev xs)) = sort_key (\<lambda>x. - f x) xs"
proof (rule properties_for_sort_key [symmetric])
  show "mset (rev (sort_key f (rev xs))) = mset xs"
    by simp
  show "sorted (map (\<lambda>x. - f x) (rev (sort_key f (rev xs))))"
  proof -
    have "sorted (map f (sort_key f (rev xs)))" by simp
    then have "sorted (rev (map uminus (map f (sort_key f (rev xs)))))"
      by (simp add: sorted_wrt_rev sorted_wrt_map rev_map [symmetric] del: sorted_sort_key)
    then show ?thesis by (simp add: rev_map comp_def)
  qed
  fix k
  have "filter (\<lambda>x. f x = f k) (rev (sort_key f (rev xs))) = filter (\<lambda>x. f x = f k) xs"
    by (simp add: rev_filter [symmetric] sort_key_stable)
  moreover have "(\<lambda>x. - f k = - f x) = (\<lambda>x. f x = f k)"
    by auto
  ultimately show "filter (\<lambda>x. - f k = - f x) (rev (sort_key f (rev xs)))
      = filter (\<lambda>x. - f k = - f x) xs"
    by simp
qed

section \<open>The sort of the merger on numeric distances\<close>

lemma float_lt_numeric: "a \<noteq> NaN \<Longrightarrow> b \<noteq> NaN \<Longrightarrow> float_lt a b = (num a < num b)"
  by (cases a; cases b) simp_all

lemma insort_lt_numeric:
  "key x \<noteq> NaN \<Longrightarrow> \<forall>y\<in>set ys. key y \<noteq> NaN \<Longrightarrow>
   insort_lt key x ys = insort_key (\<lambda>z. num (key z)) x ys"
  by (induction ys) (auto simp add: float_lt_numeric)

lemma sort_lt_numeric:
  "\<forall>x\<in>set xs. key x \<noteq> NaN \<Longrightarrow> sort_lt key xs = sort_key (\<lambda>z. num (key z)) xs"
proof (induction xs)
  case Nil
  then show ?case by (simp add: sort_lt_def)
next
  case (Cons x xs)
  then have "sort_lt key xs = sort_key (\<lambda>z. num (key z)) xs" by simp
  moreover have "sort_lt key (x # xs) = insort_lt key x (sort_lt key xs)"
    by (simp add: sort_lt_def)
  ultimately show ?case using Cons.prems by (simp add: insort_lt_numeric)
qed

lemma dkey_fun: "dkey True = (\<lambda>x. - num (distance x))" "dkey False = (\<lambda>x. num (distance x))"
  by (simp_all add: fun_eq_iff dkey_def)

lemma py_sorted_numeric:
  assumes "\<forall>x\<in>set xs. distance x \<noteq> NaN"
  shows "py_sorted distance reverse xs = sort_key (dkey reverse) xs"
proof (cases reverse)
  case True
  have "sort_lt distance (rev xs) = sort_key (\<lambda>z. num (distance z)) (rev xs)"
    using assms by (intro sort_lt_numeric) simp
  then show ?thesis
    using True by (simp add: py_sorted_def dkey_fun rev_sort_key_rev)
next
  case False
  then show ?thesis
    using assms by (simp add: py_sorted_def dkey_fun sort_lt_numeric)
qed

lemma py_slice_to_nat: "py_slice_to (int k) xs = take k xs"
  by (simp add: py_slice_to_def)

lemma merge_step_numeric:
  assumes "\<forall>x\<in>set acc. distance x \<noteq> NaN" and "numeric_rows (query_result_arrays b)"
  shows "merge_step (int k) reverse acc b
         = take k (sort_key (dkey reverse) (acc @ query_result_arrays b))"
proof -
  have "\<forall>x\<in>set (acc @ query_result_arrays b). distance x \<noteq> NaN"
    using assms by (auto simp add: numeric_rows_def list_all_iff)
  then show ?thesis
    by (simp only: merge_step_def py_slice_to_nat py_sorted_numeric)
qed

section \<open>The loops of the merger\<close>

lemma dict_get_update:
  "dict_get (AList.update k v d) p = (if p = k then v else dict_get d p)"
  by (simp add: dict_get_def update_conv')

lemma merge_requests_keys:
  "fst ` set (merge_requests topk reverse es d) = fst ` set d \<union> fst ` set es"
proof (induction es arbitrary: d)
  case Nil
  then show ?case by simp
next
  case (Cons e es)
  obtain q b where e: "e = (q, b)" by (cases e)
  show ?case
    unfolding e by (simp add: Cons.IH dom_update)
qed

lemma merge_requests_distinct:
  "distinct (map fst d) \<Longrightarrow> distinct (map fst (merge_requests topk reverse es d))"
proof (induction es arbitrary: d)
  case Nil
  then show ?case by simp
next
  case (Cons e es)
  obtain q b where e: "e = (q, b)" by (cases e)
  show ?case
    unfolding e using Cons.prems by (simp add: Cons.IH distinct_update)
qed

lemma merge_requests_get:
  "distinct (map fst es) \<Longrightarrow>
   dict_get (merge_requests topk reverse es d) p =
     (case map_of es p of None \<Rightarrow> dict_get d p
      | Some b \<Rightarrow> merge_step topk reverse (dict_get d p) b)"
proof (induction es arbitrary: d)
  case Nil
  then show ?case by simp
next
  case (Cons e es)
  obtain q b where e: "e = (q, b)" by (cases e)
  from Cons.prems e have q: "map_of es q = None" and dist: "distinct (map fst es)"
    by (auto simp add: map_of_eq_None_iff)
  show ?case
    unfolding e using q
    by (simp add: Cons.IH [OF dist] dict_get_update merge_step_def split: option.splits)
qed

lemma map_of_enumerate:
  "map_of (enumerate 0 bs) p = (if p < length bs then Some (bs ! p) else None)"
proof (cases "p < length bs")
  case True
  then have "(p, bs ! p) \<in> set (enumerate 0 bs)"
    by (simp add: in_set_enumerate_eq)
  moreover have "distinct (map fst (enumerate 0 bs))" by simp
  ultimately show ?thesis using True by simp
next
  case False
  then have "p \<notin> fst ` set (enumerate 0 bs)"
    by (auto simp add: in_set_enumerate_eq)
  then show ?thesis using False by (simp add: map_of_eq_None_iff)
qed

lemma merge_requests_enumerate_get:
  "dict_get (merge_requests topk reverse (enumerate 0 bs) d) p =
     (if p < length bs then merge_step topk reverse (dict_get d p) (bs ! p) else dict_get d p)"
  by (simp add: merge_requests_get map_of_enumerate)

lemma merge_requests_enumerate_keys:
  "fst ` set (merge_requests topk reverse (enumerate 0 bs) d) = fst ` set d \<union> {0..<length bs}"
proof -
  have "fst ` set (enumerate 0 bs) = {0..<length bs}"
    by (metis add_0 list.set_map map_fst_enumerate set_upt)
  then show ?thesis by (simp add: merge_requests_keys)
qed

lemma merge_files_tuple_free:
  "\<forall>P\<in>set ps. \<not> is_tuple P \<Longrightarrow> distinct (map fst d) \<Longrightarrow>
   \<exists>d'. merge_files topk reverse ps d = Inr d'
        \<and> distinct (map fst d')
        \<and> fst ` set d' = fst ` set d \<union> {0..<max_nq ps}
        \<and> (\<forall>p. dict_get d' p = fold_column topk reverse p ps (dict_get d p))"
proof (induction ps arbitrary: d)
  case Nil
  then show ?case by (simp add: max_nq_def)
next
  case (Cons P ps)
  from Cons.prems obtain r where P: "P = Response r"
    by (cases P) auto
  let ?d1 = "merge_requests topk reverse (enumerate 0 (topk_query_result r)) d"
  have d1: "distinct (map fst ?d1)"
    using Cons.prems(2) by (rule merge_requests_distinct)
  from Cons.prems(1) have "\<forall>P\<in>set ps. \<not> is_tuple P" by simp
  from Cons.IH [OF this d1] obtain d' where
    run: "merge_files topk reverse ps ?d1 = Inr d'" and
    dist: "distinct (map fst d')" and
    keys: "fst ` set d' = fst ` set ?d1 \<union> {0..<max_nq ps}" and
    vals: "\<forall>p. dict_get d' p = fold_column topk reverse p ps (dict_get ?d1 p)"
    by blast
  have "fst ` set d' = fst ` set d \<union> {0..<max_nq (P # ps)}"
    unfolding keys merge_requests_enumerate_keys
    by (auto simp add: max_nq_def P)
  moreover have "\<forall>p. dict_get d' p = fold_column topk reverse p (P # ps) (dict_get d p)"
    using vals by (simp add: P merge_requests_enumerate_get)
  ultimately show ?case
    using run dist by (simp add: P)
qed

lemma column_Cons: "column (P # ps) p = rows_at P p @ column ps p"
  by (simp add: column_def)

lemma column_append: "column (ps @ qs) p = column ps p @ column qs p"
  by (simp add: column_def)

lemma numeric_rows_at:
  "list_all (\<lambda>b. numeric_rows (query_result_arrays b)) (blocks_of P) \<Longrightarrow>
   \<forall>x\<in>set (rows_at P p). distance x \<noteq> NaN"
  by (auto simp add: rows_at_def list_all_iff numeric_rows_def)

lemma numeric_column:
  "numeric_partials ps \<Longrightarrow> \<forall>x\<in>set (column ps p). distance x \<noteq> NaN"
  using numeric_rows_at by (auto simp add: column_def numeric_partials_def list_all_iff)

lemma fold_column_numeric:
  "numeric_partials ps \<Longrightarrow> \<forall>x\<in>set xs. distance x \<noteq> NaN \<Longrightarrow>
   fold_column (int k) reverse p ps (take k (sort_key (dkey reverse) xs))
     = take k (sort_key (dkey reverse) (xs @ column ps p))"
proof (induction ps arbitrary: xs)
  case Nil
  then show ?case by (simp add: column_def)
next
  case (Cons P ps)
  from Cons.prems(1) have np: "numeric_partials ps"
    and nP: "list_all (\<lambda>b. numeric_rows (query_result_arrays b)) (blocks_of P)"
    by (simp_all add: numeric_partials_def)
  show ?case
  proof (cases "p < length (blocks_of P)")
    case True
    let ?b = "blocks_of P ! p"
    have rows: "rows_at P p = query_result_arrays ?b"
      using True by (simp add: rows_at_def)
    have nb: "numeric_rows (query_result_arrays ?b)"
      using nP True by (simp add: list_all_length)
    have "\<forall>x\<in>set (take k (sort_key (dkey reverse) xs)). distance x \<noteq> NaN"
      using Cons.prems(2) by (auto dest: in_set_takeD)
    then have "merge_step (int k) reverse (take k (sort_key (dkey reverse) xs)) ?b
        = take k (sort_key (dkey reverse) (take k (sort_key (dkey reverse) xs) @ query_result_arrays ?b))"
      using nb by (rule merge_step_numeric)
    also have "\<dots> = take k (sort_key (dkey reverse) (xs @ query_result_arrays ?b))"
      by (rule take_sort_key_absorb)
    finally have step: "merge_step (int k) reverse (take k (sort_key (dkey reverse) xs)) ?b
        = take k (sort_key (dkey reverse) (xs @ query_result_arrays ?b))" .
    have "\<forall>x\<in>set (xs @ query_result_arrays ?b). distance x \<noteq> NaN"
      using Cons.prems(2) nb by (auto simp add: numeric_rows_def list_all_iff)
    from Cons.IH [OF np this] show ?thesis
      using True by (simp add: step column_Cons rows)
  next
    case False
    then have "rows_at P p = []" by (simp add: rows_at_def)
    with Cons.IH [OF np Cons.prems(2)] False show ?thesis
      by (simp add: column_Cons)
  qed
qed

lemma fold_column_numeric_start:
  "numeric_partials ps \<Longrightarrow>
   fold_column (int k) reverse p ps [] = take k (sort_key (dkey reverse) (column ps p))"
  using fold_column_numeric [of ps "[]" k reverse p] by simp

lemma sorted_items:
  assumes "distinct (map fst d)" and "fst ` set d = {0..<n}"
  shows "map snd (sort_key fst d) = map (dict_get d) [0..<n]"
proof -
  let ?s = "sort_key fst d"
  have "map fst ?s = [0..<n]"
  proof (rule sorted_distinct_set_unique)
    show "sorted (map fst ?s)" by simp
    show "distinct (map fst ?s)"
      using assms(1) by (metis distinct_map distinct_sort set_sort)
    show "set (map fst ?s) = set [0..<n]"
      using assms(2) by simp
  qed simp_all
  moreover have "snd e = dict_get d (fst e)" if "e \<in> set ?s" for e
  proof -
    from that have "(fst e, snd e) \<in> set d" by simp
    with assms(1) have "map_of d (fst e) = Some (snd e)" by simp
    then show ?thesis by (simp add: dict_get_def)
  qed
  then have "map snd ?s = map (dict_get d) (map fst ?s)"
    by simp
  ultimately show ?thesis by simp
qed

lemma do_merge_tuple_free:
  assumes "ps \<noteq> []" and "\<forall>P\<in>set ps. \<not> is_tuple P"
  shows "do_merge ps topk reverse =
           (Status SUCCESS ''Success'',
            map (\<lambda>p. TopKQueryResult (fold_column topk reverse p ps [])) [0..<max_nq ps])"
proof -
  from merge_files_tuple_free [OF assms(2), of "[]" topk reverse] obtain d' where
    run: "merge_files topk reverse ps [] = Inr d'" and
    dist: "distinct (map fst d')" and
    keys: "fst ` set d' = {0..<max_nq ps}" and
    vals: "\<forall>p. dict_get d' p = fold_column topk reverse p ps []"
    by (auto simp add: dict_get_def)
  have "map (\<lambda>result. TopKQueryResult (snd result)) (sort_key fst d')
      = map TopKQueryResult (map snd (sort_key fst d'))"
    by simp
  also have "\<dots> = map TopKQueryResult (map (dict_get d') [0..<max_nq ps])"
    by (simp only: sorted_items [OF dist keys])
  finally show ?thesis
    using assms(1) run vals by (simp add: do_merge_def)
qed

lemma do_merge_numeric:
  assumes "ps \<noteq> []" and "\<forall>P\<in>set ps. \<not> is_tuple P" and "numeric_partials ps"
  shows "do_merge ps (int k) reverse =
           (Status SUCCESS ''Success'',
            map (\<lambda>p. TopKQueryResult (take k (sort_key (dkey reverse) (column ps p))))
              [0..<max_nq ps])"
  using assms by (simp add: do_merge_tuple_free fold_column_numeric_start)

lemma max_nq_Cons: "max_nq (P # ps) = max (length (blocks_of P)) (max_nq ps)"
  by (simp add: max_nq_def)

lemma max_nq_le: "\<forall>P\<in>set ps. length (blocks_of P) \<le> n \<Longrightarrow> max_nq ps \<le> n"
  by (induction ps) (simp_all add: max_nq_Cons, simp add: max_nq_def)

lemma max_nq_ge: "P \<in> set ps \<Longrightarrow> length (blocks_of P) \<le> max_nq ps"
  by (induction ps) (auto simp add: max_nq_Cons)

lemma max_nq_uniform:
  assumes "ps \<noteq> []" and "\<forall>P\<in>set ps. length (blocks_of P) = nq"
  shows "max_nq ps = nq"
proof (rule antisym)
  show "max_nq ps \<le> nq" using assms(2) by (intro max_nq_le) simp
  from assms(1) obtain P where "P \<in> set ps" by (cases ps) auto
  with assms(2) max_nq_ge [of P ps] show "nq \<le> max_nq ps" by auto
qed

lemma merge_files_first_tuple:
  "\<forall>P\<in>set pre. \<not> is_tuple P \<Longrightarrow>
   merge_files topk reverse (pre @ Tuple st payload # post) d = Inl st"
proof (induction pre arbitrary: d)
  case Nil
  then show ?case by simp
next
  case (Cons P pre)
  then show ?case by (cases P) simp_all
qed

lemma sort_lt_no_descent:
  "successively (\<lambda>a b. \<not> float_lt (key b) (key a)) xs \<Longrightarrow> sort_lt key xs = xs"
proof (induction xs rule: induct_list012)
  case 1
  then show ?case by (simp add: sort_lt_def)
next
  case (2 x)
  then show ?case by (simp add: sort_lt_def)
next
  case (3 x y zs)
  then have "sort_lt key (y # zs) = y # zs" by simp
  moreover have "sort_lt key (x # y # zs) = insort_lt key x (sort_lt key (y # zs))"
    by (simp add: sort_lt_def)
  ultimately show ?case using "3.prems" by simp
qed

lemma py_sorted_no_descent:
  assumes "successively (\<lambda>r s. \<not> (if reverse then float_lt (key r) (key s)
                                     else float_lt (key s) (key r))) xs"
  shows "py_sorted key reverse xs = xs"
proof (cases reverse)
  case True
  with assms have "successively (\<lambda>a b. \<not> float_lt (key b) (key a)) (rev xs)"
    by simp
  then have "sort_lt key (rev xs) = rev xs" by (rule sort_lt_no_descent)
  with True show ?thesis by (simp add: py_sorted_def)
next
  case False
  with assms have "sort_lt key xs = xs" by (intro sort_lt_no_descent) simp
  with False show ?thesis by (simp add: py_sorted_def)
qed

section \<open>Ties broken by partial index and place\<close>

lemma lex_key_fst:
  fixes f :: "'a \<Rightarrow> 'k::linorder" and x y :: "'t::linorder \<times> 'a"
  shows "(case x of (t, r) \<Rightarrow> (f r, t)) \<le> (case y of (t, r) \<Rightarrow> (f r, t)) \<Longrightarrow> f (snd x) \<le> f (snd y)"
  by (cases x; cases y) auto

lemma lex_key_snd:
  fixes f :: "'a \<Rightarrow> 'k::linorder" and x y :: "'t::linorder \<times> 'a"
  shows "(case x of (t, r) \<Rightarrow> (f r, t)) \<le> (case y of (t, r) \<Rightarrow> (f r, t)) \<Longrightarrow>
         f (snd x) = f (snd y) \<Longrightarrow> fst x \<le> fst y"
  by (cases x; cases y) auto

lemma tie_break_is_stable:
  fixes xs :: "('t::linorder \<times> 'a) list" and f :: "'a \<Rightarrow> 'k::linorder"
  assumes "sorted_wrt (<) (map fst xs)"
  shows "map snd (sort_key (\<lambda>(t, r). (f r, t)) xs) = sort_key f (map snd xs)"
proof (rule properties_for_sort_key [symmetric])
  let ?g = "\<lambda>(t, r). (f r, t)"
  let ?s = "sort_key ?g xs"
  from assms have sorted_tags: "sorted (map fst xs)" and distinct_tags: "distinct (map fst xs)"
    by (simp_all add: strict_sorted_iff)
  have by_g: "sorted_wrt (\<lambda>x y. ?g x \<le> ?g y) ?s"
    using sorted_sort_key [of ?g xs] by (simp only: sorted_wrt_map)
  show "mset (map snd ?s) = mset (map snd xs)"
    by simp
  show "sorted (map f (map snd ?s))"
  proof -
    have "sorted_wrt (\<lambda>x y. f (snd x) \<le> f (snd y)) ?s"
      using by_g by (rule sorted_wrt_mono_rel [rotated]) (rule lex_key_fst)
    then show ?thesis by (simp add: sorted_wrt_map)
  qed
  fix k
  let ?P = "\<lambda>e. f k = f (snd e)"
  have "filter ?P ?s = filter ?P xs"
  proof -
    have "sorted_wrt (\<lambda>x y. ?g x \<le> ?g y) (filter ?P ?s)"
      using by_g by (rule sorted_wrt_filter)
    then have "sorted_wrt (\<lambda>x y. fst x \<le> fst y) (filter ?P ?s)"
    proof (rule sorted_wrt_mono_rel [rotated])
      fix x y
      assume "x \<in> set (filter ?P ?s)" "y \<in> set (filter ?P ?s)" "?g x \<le> ?g y"
      then show "fst x \<le> fst y"
        using lex_key_snd [of f x y] by simp
    qed
    then have s1: "sorted (map fst (filter ?P ?s))"
      by (simp add: sorted_wrt_map)
    have s2: "sorted (map fst (filter ?P xs))"
      using sorted_tags by (simp add: sorted_wrt_map sorted_wrt_filter)
    have "inj_on fst (set xs)"
      using distinct_tags by (simp add: distinct_map)
    then have inj: "inj_on fst (set (filter ?P xs))"
      by (rule inj_on_subset) simp
    have "mset (filter ?P xs) = mset (filter ?P ?s)"
      by simp
    from sort_key_inj_key_eq [OF this inj s1] have "sort_key fst (filter ?P xs) = filter ?P ?s" .
    moreover have "sort_key fst (filter ?P xs) = filter ?P xs"
      using s2 by (rule sort_key_id_if_sorted)
    ultimately show ?thesis by simp
  qed
  then have "map snd (filter ?P ?s) = map snd (filter ?P xs)"
    by simp
  then show "filter (\<lambda>x. f k = f x) (map snd ?s) = filter (\<lambda>x. f k = f x) (map snd xs)"
    by (simp add: filter_map comp_def)
qed

lemma tags_of_entries:
  "map fst (map (\<lambda>(i, r). ((j, i), r)) es) = map (\<lambda>i. (j, i)) (map fst es)"
  by (induction es) auto

lemma tags_of_partial:
  "map fst (map (\<lambda>(i, r). ((j, i), r)) (enumerate 0 rows)) = map (\<lambda>i. (j, i)) [0..<length rows]"
  by (simp only: tags_of_entries map_fst_enumerate add_0)

lemma rows_of_entries:
  "map snd (map (\<lambda>(i, r). ((j, i), r)) es) = map snd es"
  by (induction es) auto

lemma rows_of_partial:
  "map snd (map (\<lambda>(i, r). ((j, i), r)) (enumerate 0 rows)) = rows"
  by (simp only: rows_of_entries map_snd_enumerate)

lemma tagged_from:
  "map snd (concat (map (\<lambda>(j, P). map (\<lambda>(i, r). ((j, i), r)) (enumerate 0 (rows_at P p)))
                      (enumerate n ps))) = column ps p
   \<and> sorted_wrt (<) (map fst (concat (map (\<lambda>(j, P). map (\<lambda>(i, r). ((j, i), r))
                                               (enumerate 0 (rows_at P p))) (enumerate n ps))))
   \<and> (\<forall>t\<in>set (map fst (concat (map (\<lambda>(j, P). map (\<lambda>(i, r). ((j, i), r))
                                               (enumerate 0 (rows_at P p))) (enumerate n ps)))).
        n \<le> fst t)"
proof (induction ps arbitrary: n)
  case Nil
  then show ?case by (simp add: column_def)
next
  case (Cons P ps)
  let ?here = "map (\<lambda>(i, r). ((n, i), r)) (enumerate 0 (rows_at P p))"
  let ?rest = "concat (map (\<lambda>(j, P). map (\<lambda>(i, r). ((j, i), r)) (enumerate 0 (rows_at P p)))
                         (enumerate (Suc n) ps))"
  have here_tags: "map fst ?here = map (\<lambda>i. (n, i)) [0..<length (rows_at P p)]"
    by (rule tags_of_partial)
  have here_sorted: "sorted_wrt (<) (map fst ?here)"
    unfolding here_tags by (simp add: sorted_wrt_map)
  have here_rows: "map snd ?here = rows_at P p"
    by (rule rows_of_partial)
  from Cons.IH [of "Suc n"] have
    rest_rows: "map snd ?rest = column ps p" and
    rest_sorted: "sorted_wrt (<) (map fst ?rest)" and
    rest_low: "\<forall>t\<in>set (map fst ?rest). Suc n \<le> fst t"
    by blast+
  have cross: "\<forall>x\<in>set (map fst ?here). \<forall>y\<in>set (map fst ?rest). x < y"
  proof (intro ballI)
    fix x y
    assume "x \<in> set (map fst ?here)" and y: "y \<in> set (map fst ?rest)"
    then have "fst x = n" unfolding here_tags by auto
    moreover from rest_low y have "Suc n \<le> fst y" by blast
    ultimately show "x < y" by (cases x; cases y) simp
  qed
  have low: "\<forall>t\<in>set (map fst ?here). n \<le> fst t"
    unfolding here_tags by auto
  have split: "concat (map (\<lambda>(j, P). map (\<lambda>(i, r). ((j, i), r)) (enumerate 0 (rows_at P p)))
                         (enumerate n (P # ps))) = ?here @ ?rest"
    by simp
  have c1: "map snd (?here @ ?rest) = column (P # ps) p"
    by (simp only: map_append here_rows rest_rows column_Cons)
  have c2: "sorted_wrt (<) (map fst (?here @ ?rest))"
    using here_sorted rest_sorted cross by (simp only: map_append sorted_wrt_append)
  have c3: "\<forall>t\<in>set (map fst (?here @ ?rest)). n \<le> fst t"
  proof
    fix t
    assume "t \<in> set (map fst (?here @ ?rest))"
    then have "t \<in> set (map fst ?here) \<or> t \<in> set (map fst ?rest)"
      by (simp only: map_append set_append Un_iff)
    then show "n \<le> fst t"
    proof
      assume "t \<in> set (map fst ?here)"
      with low show ?thesis by blast
    next
      assume "t \<in> set (map fst ?rest)"
      with rest_low have "Suc n \<le> fst t" by blast
      then show ?thesis by simp
    qed
  qed
  show ?case
    unfolding split using c1 c2 c3 by blast
qed

lemma tagged_column_rows: "map snd (tagged_column ps p) = column ps p"
  using tagged_from [of p 0 ps] by (simp add: tagged_column_def)

lemma tagged_column_sorted: "sorted_wrt (<) (map fst (tagged_column ps p))"
  using tagged_from [of p 0 ps] by (simp add: tagged_column_def)

lemma metric_key_dkey: "metric_key metric = dkey (metric = IP)"
  by (cases metric) (simp_all add: fun_eq_iff dkey_def)

lemma merged_reference_stable:
  "merged_reference metric K ps p = take K (sort_key (dkey (metric = IP)) (column ps p))"
  using tie_break_is_stable [OF tagged_column_sorted, of "dkey (metric = IP)" ps p]
  by (simp add: merged_reference_def metric_key_dkey tagged_column_rows)

lemma sorted_wrt_dkey:
  "sorted_wrt (\<lambda>r s. dkey reverse r \<le> dkey reverse s) (take k (sort_key (dkey reverse) xs))"
proof -
  have "sorted (map (dkey reverse) (sort_key (dkey reverse) xs))" by simp
  then have "sorted_wrt (\<lambda>r s. dkey reverse r \<le> dkey reverse s) (sort_key (dkey reverse) xs)"
    by (simp only: sorted_wrt_map)
  then show ?thesis by (rule sorted_wrt_take)
qed

lemma dkey_le:
  "(dkey reverse r \<le> dkey reverse s) =
     (if reverse then num (distance s) \<le> num (distance r)
      else num (distance r) \<le> num (distance s))"
  by (simp add: dkey_def)

section \<open>Merging in groups and in another order\<close>

lemma take_merge_key_right:
  "K \<le> n \<Longrightarrow> take K (merge_key f xs (take n ys)) = take K (merge_key f xs ys)"
proof (induction f xs ys arbitrary: K n rule: merge_key.induct)
  case (1 f ys)
  then show ?case by (simp add: min_def)
next
  case (2 f x xs)
  then show ?case by simp
next
  case (3 f x xs y ys)
  show ?case
  proof (cases K)
    case 0
    then show ?thesis by simp
  next
    case (Suc k)
    with "3.prems" obtain m where n: "n = Suc m" and km: "k \<le> m"
      by (cases n) auto
    show ?thesis
    proof (cases "f x \<le> f y")
      case True
      have "k \<le> n" using km n by simp
      with "3.IH"(1) [of k n] True show ?thesis by (simp add: Suc n)
    next
      case False
      with "3.IH"(2) [of k m] km show ?thesis by (simp add: Suc n)
    qed
  qed
qed

lemma take_sort_key_absorb_right:
  "take K (sort_key f (xs @ take K (sort_key f ys))) = take K (sort_key f (xs @ ys))"
proof -
  have "sort_key f (take K (sort_key f ys)) = take K (sort_key f ys)"
    by (rule sort_key_id_if_sorted) (simp add: take_map [symmetric] sorted_wrt_take)
  then show ?thesis
    by (simp add: sort_key_append_merge take_merge_key_right)
qed

lemma take_sort_key_concat:
  "take K (sort_key f (concat (map (\<lambda>c. take K (sort_key f c)) cs)))
     = take K (sort_key f (concat cs))"
proof (induction cs)
  case Nil
  then show ?case by simp
next
  case (Cons c cs)
  let ?rest' = "concat (map (\<lambda>c. take K (sort_key f c)) cs)"
  have "take K (sort_key f (take K (sort_key f c) @ ?rest'))
      = take K (sort_key f (c @ ?rest'))"
    by (rule take_sort_key_absorb)
  also have "\<dots> = take K (sort_key f (c @ take K (sort_key f ?rest')))"
    by (rule take_sort_key_absorb_right [symmetric])
  also have "\<dots> = take K (sort_key f (c @ take K (sort_key f (concat cs))))"
    by (simp only: Cons.IH)
  also have "\<dots> = take K (sort_key f (c @ concat cs))"
    by (rule take_sort_key_absorb_right)
  finally show ?case by simp
qed

lemma max_nq_append: "max_nq (ps @ qs) = max (max_nq ps) (max_nq qs)"
  by (induction ps) (simp_all add: max_nq_Cons, simp add: max_nq_def)

lemma column_beyond: "max_nq ps \<le> p \<Longrightarrow> column ps p = []"
proof -
  assume "max_nq ps \<le> p"
  then have "rows_at P p = []" if "P \<in> set ps" for P
    using max_nq_ge [OF that] by (simp add: rows_at_def)
  then show ?thesis by (simp add: column_def)
qed

lemma do_merge_numeric_any:
  assumes "\<forall>P\<in>set ps. \<not> is_tuple P" and "numeric_partials ps"
  shows "do_merge ps (int k) reverse =
           (Status SUCCESS ''Success'',
            map (\<lambda>p. TopKQueryResult (take k (sort_key (dkey reverse) (column ps p))))
              [0..<max_nq ps])"
proof (cases "ps = []")
  case True
  then show ?thesis by (simp add: do_merge_def max_nq_def)
next
  case False
  then show ?thesis using assms by (rule do_merge_numeric)
qed

lemma numeric_partials_iff:
  "numeric_partials ps \<longleftrightarrow>
     (\<forall>P\<in>set ps. \<forall>b\<in>set (blocks_of P). \<forall>r\<in>set (query_result_arrays b). distance r \<noteq> NaN)"
  by (simp add: numeric_partials_def numeric_rows_def list_all_iff)

lemma column_concat: "column (concat groups) p = concat (map (\<lambda>g. column g p) groups)"
  by (induction groups) (simp_all add: column_append, simp add: column_def)

lemma max_nq_concat: "max_nq (concat groups) = foldr (\<lambda>g n. max (max_nq g) n) groups 0"
  by (induction groups) (simp_all add: max_nq_append, simp add: max_nq_def)

lemma regrouped_partial:
  assumes "\<forall>P\<in>set g. \<not> is_tuple P" and "numeric_partials g"
  shows "as_partial (do_merge g (int K) reverse)
         = Response (TopKQueryResultList (Status SUCCESS ''Success'')
             (map (\<lambda>p. TopKQueryResult (take K (sort_key (dkey reverse) (column g p))))
                [0..<max_nq g]))"
  using do_merge_numeric_any [OF assms, of K reverse] by (simp add: as_partial_def)

lemma regrouped_rows:
  assumes "\<forall>P\<in>set g. \<not> is_tuple P" and "numeric_partials g"
  shows "rows_at (as_partial (do_merge g (int K) reverse)) p
         = take K (sort_key (dkey reverse) (column g p))"
proof (cases "p < max_nq g")
  case True
  then show ?thesis
    by (simp add: regrouped_partial [OF assms] rows_at_def)
next
  case False
  then have "column g p = []" by (intro column_beyond) simp
  with False show ?thesis
    by (simp add: regrouped_partial [OF assms] rows_at_def)
qed

lemma regrouped_length:
  assumes "\<forall>P\<in>set g. \<not> is_tuple P" and "numeric_partials g"
  shows "length (blocks_of (as_partial (do_merge g (int K) reverse))) = max_nq g"
  by (simp add: regrouped_partial [OF assms])

lemma regrouped_numeric:
  assumes "\<forall>P\<in>set g. \<not> is_tuple P" and "numeric_partials g"
  shows "\<forall>b\<in>set (blocks_of (as_partial (do_merge g (int K) reverse))).
           \<forall>r\<in>set (query_result_arrays b). distance r \<noteq> NaN"
  using numeric_column [OF assms(2)]
  by (auto simp add: regrouped_partial [OF assms] dest: in_set_takeD)

lemma max_nq_regrouped:
  "\<forall>g\<in>set groups. (\<forall>P\<in>set g. \<not> is_tuple P) \<and> numeric_partials g \<Longrightarrow>
   max_nq (map (\<lambda>g. as_partial (do_merge g (int K) reverse)) groups)
     = foldr (\<lambda>g n. max (max_nq g) n) groups 0"
proof (induction groups)
  case Nil
  then show ?case by (simp add: max_nq_def)
next
  case (Cons g groups)
  then have "length (blocks_of (as_partial (do_merge g (int K) reverse))) = max_nq g"
    by (intro regrouped_length) simp_all
  with Cons show ?case
    by (simp add: max_nq_Cons)
qed

lemma merge_regrouped:
  assumes tf: "\<forall>P\<in>set (concat groups). \<not> is_tuple P"
    and nm: "numeric_partials (concat groups)"
  shows "do_merge (map (\<lambda>g. as_partial (do_merge g (int K) reverse)) groups) (int K) reverse
         = do_merge (concat groups) (int K) reverse"
proof -
  let ?f = "dkey reverse"
  let ?R = "\<lambda>g. as_partial (do_merge g (int K) reverse)"
  let ?G = "map ?R groups"
  have g_tf: "\<forall>P\<in>set g. \<not> is_tuple P" if "g \<in> set groups" for g
    using tf that by auto
  have g_nm: "numeric_partials g" if "g \<in> set groups" for g
    using nm that by (auto simp add: numeric_partials_iff)
  have G_tf: "\<forall>P\<in>set ?G. \<not> is_tuple P"
    by (auto simp add: as_partial_def)
  have G_nm: "numeric_partials ?G"
    unfolding numeric_partials_iff using regrouped_numeric [OF g_tf g_nm] by auto
  have "max_nq ?G = foldr (\<lambda>g n. max (max_nq g) n) groups 0"
    using g_tf g_nm by (intro max_nq_regrouped) blast
  then have nq: "max_nq ?G = max_nq (concat groups)"
    by (simp add: max_nq_concat)
  have col: "column ?G p = concat (map (\<lambda>c. take K (sort_key ?f c)) (map (\<lambda>g. column g p) groups))"
    for p
  proof -
    have "map (\<lambda>P. rows_at P p) ?G = map (\<lambda>g. rows_at (?R g) p) groups"
      by (simp add: comp_def)
    also have "\<dots> = map (\<lambda>g. take K (sort_key ?f (column g p))) groups"
      by (rule map_cong [OF refl]) (simp add: regrouped_rows g_tf g_nm)
    also have "\<dots> = map (\<lambda>c. take K (sort_key ?f c)) (map (\<lambda>g. column g p) groups)"
      by (simp add: comp_def)
    finally have rows: "map (\<lambda>P. rows_at P p) ?G
        = map (\<lambda>c. take K (sort_key ?f c)) (map (\<lambda>g. column g p) groups)" .
    have "column ?G p = concat (map (\<lambda>P. rows_at P p) ?G)"
      by (simp only: column_def)
    then show ?thesis by (simp only: rows)
  qed
  have "take K (sort_key ?f (column ?G p)) = take K (sort_key ?f (column (concat groups) p))" for p
    unfolding col column_concat by (rule take_sort_key_concat)
  then show ?thesis
    by (simp add: do_merge_numeric_any [OF G_tf G_nm] do_merge_numeric_any [OF tf nm] nq)
qed

lemma max_nq_set: "set ps = set qs \<Longrightarrow> max_nq ps = max_nq qs"
proof (rule antisym)
  assume eq: "set ps = set qs"
  show "max_nq ps \<le> max_nq qs"
    using eq max_nq_ge [of _ qs] by (intro max_nq_le) auto
  show "max_nq qs \<le> max_nq ps"
    using eq max_nq_ge [of _ ps] by (intro max_nq_le) auto
qed

lemma mset_column: "mset ps = mset qs \<Longrightarrow> mset (column ps p) = mset (column qs p)"
proof -
  assume eq: "mset ps = mset qs"
  have "mset (column xs p) = sum_mset (image_mset (\<lambda>P. mset (rows_at P p)) (mset xs))" for xs
    by (induction xs) (simp_all add: column_Cons, simp add: column_def)
  with eq show ?thesis by simp
qed

lemma distances_by_key:
  assumes "\<forall>r\<in>set xs. distance r \<noteq> NaN"
  shows "map distance xs = map (\<lambda>x. Num (if reverse then - x else x)) (map (dkey reverse) xs)"
proof -
  have "distance r = Num (if reverse then - dkey reverse r else dkey reverse r)"
    if "distance r \<noteq> NaN" for r
    using that by (cases "distance r") (simp_all add: dkey_def)
  with assms show ?thesis by simp
qed

lemma sorted_distances_perm:
  assumes "mset xs = mset ys" and "\<forall>r\<in>set ys. distance r \<noteq> NaN"
  shows "map distance (take K (sort_key (dkey reverse) xs))
         = map distance (take K (sort_key (dkey reverse) ys))"
proof -
  let ?f = "dkey reverse"
  have keys: "map ?f (sort_key ?f zs) = sort (map ?f zs)" for zs
    by (rule properties_for_sort [symmetric]) simp_all
  have "mset (map ?f xs) = mset (map ?f ys)"
    using assms(1) by simp
  then have "sort (map ?f xs) = sort (map ?f ys)"
    by (metis properties_for_sort sorted_sort mset_sort)
  then have same: "map ?f (sort_key ?f xs) = map ?f (sort_key ?f ys)"
    by (simp only: keys)
  from assms have nx: "\<forall>r\<in>set xs. distance r \<noteq> NaN"
    by (metis mset_eq_setD)
  have "map distance (sort_key ?f xs) = map distance (sort_key ?f ys)"
    using distances_by_key [of "sort_key ?f xs" reverse] distances_by_key [of "sort_key ?f ys" reverse]
      nx assms(2) same by simp
  then show ?thesis by (simp only: take_map [symmetric])
qed

lemma merge_permuted:
  assumes eq: "mset ps = mset qs"
    and tf: "\<forall>P\<in>set qs. \<not> is_tuple P" and nm: "numeric_partials qs"
  shows "fst (do_merge ps (int K) reverse) = fst (do_merge qs (int K) reverse)
         \<and> block_distances (snd (do_merge ps (int K) reverse))
           = block_distances (snd (do_merge qs (int K) reverse))"
proof -
  from eq have sets: "set ps = set qs" by (rule mset_eq_setD)
  with tf nm have tf': "\<forall>P\<in>set ps. \<not> is_tuple P" and nm': "numeric_partials ps"
    by (simp_all add: numeric_partials_iff)
  have nq: "max_nq ps = max_nq qs"
    using sets by (rule max_nq_set)
  have "map distance (take K (sort_key (dkey reverse) (column ps p)))
      = map distance (take K (sort_key (dkey reverse) (column qs p)))" for p
    using mset_column [OF eq, of p] numeric_column [OF nm, of p]
    by (rule sorted_distances_perm)
  then show ?thesis
    by (simp add: do_merge_numeric_any [OF tf nm] do_merge_numeric_any [OF tf' nm'] nq
        block_distances_def comp_def)
qed

section \<open>The response of \<open>Search\<close>\<close>

lemma do_query_merge:
  "fst (do_query env (table_name request) table_meta (query_record_array request)
          (req_topk request) (req_nprobe request) (query_range_array request))
   = do_merge (sub_results env request) (req_topk request) (metric_type table_meta = IP)"
  by (simp add: do_query_def sub_results_def Let_def)

lemma search_response:
  assumes "0 < req_topk request" and "req_topk request \<le> 2048"
    and "0 < req_nprobe request" and "req_nprobe request \<le> 2048"
    and "cache (table_name request) \<noteq> None \<or> OK (fst (describe_table env (table_name request)))"
  shows "fst (Search env request cache)
         = Inr (TopKQueryResultList
                  (fst (do_merge (sub_results env request) (req_topk request)
                          (metric_type (descriptor env request cache) = IP)))
                  (snd (do_merge (sub_results env request) (req_topk request)
                          (metric_type (descriptor env request cache) = IP))))"
proof (cases "cache (table_name request)")
  case None
  with assms(5) have ok: "OK (fst (describe_table env (table_name request)))" by simp
  obtain st info where d: "describe_table env (table_name request) = (st, info)"
    by (cases "describe_table env (table_name request)")
  obtain res calls where q: "do_query env (table_name request) info (query_record_array request)
          (req_topk request) (req_nprobe request) (query_range_array request) = (res, calls)"
    by (cases "do_query env (table_name request) info (query_record_array request)
          (req_topk request) (req_nprobe request) (query_range_array request)")
  from q have "res = do_merge (sub_results env request) (req_topk request) (metric_type info = IP)"
    using do_query_merge [of env request info] by simp
  with assms(1-4) None ok d q show ?thesis
    by (simp add: Search_def MAX_TOPK_def MAX_NPROBE_def Let_def descriptor_def
        split: prod.splits)
next
  case (Some tm)
  obtain res calls where q: "do_query env (table_name request) tm (query_record_array request)
          (req_topk request) (req_nprobe request) (query_range_array request) = (res, calls)"
    by (cases "do_query env (table_name request) tm (query_record_array request)
          (req_topk request) (req_nprobe request) (query_range_array request)")
  from q have "res = do_merge (sub_results env request) (req_topk request) (metric_type tm = IP)"
    using do_query_merge [of env request tm] by simp
  with assms(1-4) Some q show ?thesis
    by (simp add: Search_def MAX_TOPK_def MAX_NPROBE_def Let_def descriptor_def
        split: prod.splits)
qed

lemma column_all_empty:
  assumes "\<forall>P\<in>set ps. \<forall>b\<in>set (blocks_of P). query_result_arrays b = []"
  shows "column ps p = []"
proof -
  have "rows_at P p = []" if "P \<in> set ps" for P
    using assms that by (simp add: rows_at_def)
  then show ?thesis by (simp add: column_def)
qed

lemma merged_uniform:
  assumes ne: "ps \<noteq> []"
    and wf: "\<forall>P\<in>set ps. \<not> is_tuple P \<and> length (blocks_of P) = nq"
    and nm: "numeric_partials ps"
  shows "do_merge ps (int K) (metric = IP)
         = (Status SUCCESS ''Success'', map (\<lambda>p. TopKQueryResult (merged_reference metric K ps p)) [0..<nq])"
proof -
  from wf have tf: "\<forall>P\<in>set ps. \<not> is_tuple P"
    and len: "\<forall>P\<in>set ps. length (blocks_of P) = nq"
    by simp_all
  have "max_nq ps = nq"
    using ne len by (rule max_nq_uniform)
  with do_merge_numeric [OF ne tf nm, of K "metric = IP"] show ?thesis
    by (simp add: merged_reference_stable)
qed

lemma merged_reference_shape:
  assumes "numeric_partials ps"
  shows "length (merged_reference metric K ps p) \<le> K
         \<and> numeric_rows (merged_reference metric K ps p)
         \<and> sorted_wrt
              (\<lambda>r s. if metric = IP then num (distance s) \<le> num (distance r)
                     else num (distance r) \<le> num (distance s))
              (merged_reference metric K ps p)"
proof -
  let ?rev = "metric = IP"
  have "numeric_rows (take K (sort_key (dkey ?rev) (column ps p)))"
    using numeric_column [OF assms, of p]
    by (auto simp add: numeric_rows_def list_all_iff dest: in_set_takeD)
  moreover have "sorted_wrt
       (\<lambda>r s. if ?rev then num (distance s) \<le> num (distance r)
              else num (distance r) \<le> num (distance s))
       (take K (sort_key (dkey ?rev) (column ps p)))"
    using sorted_wrt_dkey [of ?rev K "column ps p"] by (simp only: dkey_le)
  ultimately show ?thesis
    by (simp add: merged_reference_stable)
qed

lemma merged_reference_all_empty:
  assumes "\<forall>P\<in>set ps. \<forall>b\<in>set (blocks_of P). query_result_arrays b = []"
  shows "merged_reference metric K ps p = []"
  by (simp add: merged_reference_stable column_all_empty [OF assms])

section \<open>The merged blocks\<close>

text \<open>
  C1, as the code has it: for every non-empty list of partials, none of them a tuple, each
  holding \<open>nq\<close> blocks, whose rows all carry a number as distance (no NaN), and for every
  position \<open>p < nq\<close>, the merger returns Success with \<open>nq\<close> blocks, and the block at \<open>p\<close>
  is the concatenation of the partials' blocks at \<open>p\<close>, sorted by distance (ascending for
  L2, descending for IP) with ties broken by partial index and then by the row's place in
  its partial, cut to the first K rows.
\<close>

theorem merged_block_is_sorted_concatenation:
  assumes "ps \<noteq> []"
    and "\<forall>P\<in>set ps. \<not> is_tuple P \<and> length (blocks_of P) = nq"
    and "numeric_partials ps"
    and "p < nq"
  shows "fst (do_merge ps (int K) (metric = IP)) = Status SUCCESS ''Success''
         \<and> length (snd (do_merge ps (int K) (metric = IP))) = nq
         \<and> query_result_arrays (snd (do_merge ps (int K) (metric = IP)) ! p)
             = merged_reference metric K ps p"
proof -
  from assms(2) have tf: "\<forall>P\<in>set ps. \<not> is_tuple P"
    and len: "\<forall>P\<in>set ps. length (blocks_of P) = nq"
    by simp_all
  have "max_nq ps = nq"
    using assms(1) len by (rule max_nq_uniform)
  with do_merge_numeric [OF assms(1) tf assms(3), of K "metric = IP"] assms(4)
  show ?thesis
    by (simp add: merged_reference_stable)
qed

theorem merged_block_is_sorted_concatenation_witness:
  "[shard_a, shard_b] \<noteq> []
   \<and> list_all (\<lambda>P. \<not> is_tuple P \<and> length (blocks_of P) = 2) [shard_a, shard_b]
   \<and> numeric_partials [shard_a, shard_b]
   \<and> (0::nat) < 2
   \<and> length (snd (do_merge [shard_a, shard_b] (int 2) (L2 = IP))) = 2
   \<and> query_result_arrays (snd (do_merge [shard_a, shard_b] (int 2) (L2 = IP)) ! 0)
       = merged_reference L2 2 [shard_a, shard_b] 0
   \<and> merged_reference L2 2 [shard_a, shard_b] 0
       = [QueryResult 1 (Num (1/10)), QueryResult 5 (Num (2/10))]"
  using merged_block_is_sorted_concatenation [of "[shard_a, shard_b]" 2 0 2 L2]
  by (simp add: shard_a_def shard_b_def numeric_partials_def numeric_rows_def
      merged_reference_def tagged_column_def rows_at_def enumerate_eq_zip)

text \<open>
  C1 as the spec words it, for every list of partials, fails when a distance is NaN: the
  merged block is then not sorted. Here the row at distance 0 ends up behind the row at
  distance 1.
\<close>

theorem nan_row_breaks_order:
  "query_result_arrays (snd (do_merge
      [Response (TopKQueryResultList (Status 0 ''OK'')
         [TopKQueryResult [QueryResult 1 (Num 1), QueryResult 2 NaN]]),
       Response (TopKQueryResultList (Status 0 ''OK'') [TopKQueryResult [QueryResult 3 (Num 0)]])]
      3 False) ! 0)
     = [QueryResult 1 (Num 1), QueryResult 2 NaN, QueryResult 3 (Num 0)]
   \<and> float_lt (distance (QueryResult 3 (Num 0))) (distance (QueryResult 1 (Num 1)))"
  by (simp add: do_merge_def SUCCESS_def enumerate_eq_zip py_slice_to_def py_sorted_def
      sort_lt_def dict_get_def)

text \<open>
  C2, as the code has it: take a Search request within the bounds whose table descriptor
  is cached or looked up with success. If its routing plan is not empty and every
  sub-query leaves a partial that is not a tuple and holds \<open>nq\<close> blocks, one per query
  vector, of rows whose distances are numbers, then the response has status Success and
  exactly \<open>nq\<close> blocks in input order: the block at position \<open>p\<close> is the merge of the
  partials' blocks at position \<open>p\<close>. Each block has at most K rows, and its distances
  never decrease for L2 and never increase for IP. When every partial is empty the
  response holds \<open>nq\<close> empty blocks. When the routing plan is empty, so that there is no
  partial at all, the response is Success with an empty list of blocks.
\<close>

theorem search_blocks_in_order:
  assumes "0 < req_topk request" and "req_topk request \<le> 2048"
    and "0 < req_nprobe request" and "req_nprobe request \<le> 2048"
    and "cache (table_name request) \<noteq> None \<or> OK (fst (describe_table env (table_name request)))"
  shows "(sub_results env request = [] \<longrightarrow>
            fst (Search env request cache)
              = Inr (TopKQueryResultList (Status SUCCESS ''Success'') []))
       \<and> (sub_results env request \<noteq> []
          \<and> (\<forall>P\<in>set (sub_results env request).
                \<not> is_tuple P \<and> length (blocks_of P) = length (query_record_array request))
          \<and> numeric_partials (sub_results env request) \<longrightarrow>
          (\<exists>results.
             fst (Search env request cache)
               = Inr (TopKQueryResultList (Status SUCCESS ''Success'') results)
             \<and> length results = length (query_record_array request)
             \<and> (\<forall>p<length (query_record_array request).
                   query_result_arrays (results ! p)
                     = merged_reference (metric_type (descriptor env request cache))
                         (nat (req_topk request)) (sub_results env request) p
                   \<and> length (query_result_arrays (results ! p)) \<le> nat (req_topk request)
                   \<and> numeric_rows (query_result_arrays (results ! p))
                   \<and> sorted_wrt
                        (\<lambda>r s. if metric_type (descriptor env request cache) = IP
                               then num (distance s) \<le> num (distance r)
                               else num (distance r) \<le> num (distance s))
                        (query_result_arrays (results ! p)))
             \<and> ((\<forall>P\<in>set (sub_results env request). \<forall>b\<in>set (blocks_of P).
                     query_result_arrays b = []) \<longrightarrow>
                  results = replicate (length (query_record_array request)) (TopKQueryResult []))))"
proof (intro conjI impI)
  let ?ps = "sub_results env request"
  let ?m = "metric_type (descriptor env request cache)"
  let ?K = "nat (req_topk request)"
  let ?nq = "length (query_record_array request)"
  have resp: "fst (Search env request cache)
      = Inr (TopKQueryResultList
               (fst (do_merge ?ps (req_topk request) (?m = IP)))
               (snd (do_merge ?ps (req_topk request) (?m = IP))))"
    using assms by (rule search_response [of request cache env])
  {
    assume "?ps = []"
    with resp show "fst (Search env request cache)
        = Inr (TopKQueryResultList (Status SUCCESS ''Success'') [])"
      by (simp add: do_merge_def)
  }
  {
    assume wf: "?ps \<noteq> []
        \<and> (\<forall>P\<in>set ?ps. \<not> is_tuple P \<and> length (blocks_of P) = ?nq)
        \<and> numeric_partials ?ps"
    let ?results = "map (\<lambda>p. TopKQueryResult (merged_reference ?m ?K ?ps p)) [0..<?nq]"
    have k: "req_topk request = int ?K"
      using assms(1) by simp
    from wf have "do_merge ?ps (int ?K) (?m = IP) = (Status SUCCESS ''Success'', ?results)"
      by (intro merged_uniform) simp_all
    with resp have r1: "fst (Search env request cache)
        = Inr (TopKQueryResultList (Status SUCCESS ''Success'') ?results)"
      by (simp only: k [symmetric] fst_conv snd_conv)
    have r2: "length ?results = ?nq" by simp
    have r3: "\<forall>p<?nq. query_result_arrays (?results ! p) = merged_reference ?m ?K ?ps p
        \<and> length (query_result_arrays (?results ! p)) \<le> ?K
        \<and> numeric_rows (query_result_arrays (?results ! p))
        \<and> sorted_wrt
             (\<lambda>r s. if ?m = IP then num (distance s) \<le> num (distance r)
                    else num (distance r) \<le> num (distance s))
             (query_result_arrays (?results ! p))"
      using merged_reference_shape [of ?ps ?m ?K] wf by simp
    have r4: "(\<forall>P\<in>set ?ps. \<forall>b\<in>set (blocks_of P). query_result_arrays b = []) \<longrightarrow>
        ?results = replicate ?nq (TopKQueryResult [])"
    proof
      assume "\<forall>P\<in>set ?ps. \<forall>b\<in>set (blocks_of P). query_result_arrays b = []"
      then have "merged_reference ?m ?K ?ps p = []" for p
        by (rule merged_reference_all_empty)
      then show "?results = replicate ?nq (TopKQueryResult [])"
        by (simp add: map_replicate_const)
    qed
    from r1 r2 r3 r4 show "\<exists>results.
        fst (Search env request cache)
          = Inr (TopKQueryResultList (Status SUCCESS ''Success'') results)
        \<and> length results = ?nq
        \<and> (\<forall>p<?nq. query_result_arrays (results ! p) = merged_reference ?m ?K ?ps p
              \<and> length (query_result_arrays (results ! p)) \<le> ?K
              \<and> numeric_rows (query_result_arrays (results ! p))
              \<and> sorted_wrt
                   (\<lambda>r s. if ?m = IP then num (distance s) \<le> num (distance r)
                          else num (distance r) \<le> num (distance s))
                   (query_result_arrays (results ! p)))
        \<and> ((\<forall>P\<in>set ?ps. \<forall>b\<in>set (blocks_of P). query_result_arrays b = []) \<longrightarrow>
             results = replicate ?nq (TopKQueryResult []))"
      by blast
  }
qed

theorem search_blocks_in_order_witness:
  "0 < req_topk two_query_request \<and> req_topk two_query_request \<le> 2048
   \<and> 0 < req_nprobe two_query_request \<and> req_nprobe two_query_request \<le> 2048
   \<and> OK (fst (describe_table two_shard_env (table_name two_query_request)))
   \<and> sub_results two_shard_env two_query_request = [shard_a, shard_b]
   \<and> list_all (\<lambda>P. \<not> is_tuple P \<and> length (blocks_of P) = length (query_record_array two_query_request))
        (sub_results two_shard_env two_query_request)
   \<and> numeric_partials (sub_results two_shard_env two_query_request)
   \<and> (\<exists>results.
         fst (Search two_shard_env two_query_request Map.empty)
           = Inr (TopKQueryResultList (Status SUCCESS ''Success'') results)
         \<and> length results = 2
         \<and> query_result_arrays (results ! 0)
             = [QueryResult 1 (Num (1/10)), QueryResult 5 (Num (2/10))]
         \<and> query_result_arrays (results ! 1)
             = [QueryResult 4 (Num (3/10)), QueryResult 2 (Num (4/10))])"
proof -
  let ?R = two_query_request
  let ?E = two_shard_env
  have b1: "0 < req_topk ?R" and b2: "req_topk ?R \<le> 2048"
    and b3: "0 < req_nprobe ?R" and b4: "req_nprobe ?R \<le> 2048"
    by (simp_all add: two_query_request_def)
  have ok: "OK (fst (describe_table ?E (table_name ?R)))"
    by (simp add: two_shard_env_def OK_def SUCCESS_def)
  then have d: "Map.empty (table_name ?R) \<noteq> (None :: TableSchema option)
      \<or> OK (fst (describe_table ?E (table_name ?R)))"
    by simp
  have sr: "sub_results ?E ?R = [shard_a, shard_b]"
    by (simp add: sub_results_def two_shard_env_def two_query_request_def)
  have wf: "\<forall>P\<in>set (sub_results ?E ?R).
      \<not> is_tuple P \<and> length (blocks_of P) = length (query_record_array ?R)"
    by (simp add: sr) (simp add: shard_a_def shard_b_def two_query_request_def)
  have nm: "numeric_partials (sub_results ?E ?R)"
    by (simp add: sr) (simp add: shard_a_def shard_b_def numeric_partials_def numeric_rows_def)
  have ne: "sub_results ?E ?R \<noteq> []"
    by (simp add: sr)
  have m: "metric_type (descriptor ?E ?R Map.empty) = L2"
    by (simp add: descriptor_def two_shard_env_def)
  have k: "nat (req_topk ?R) = 2" and nq: "length (query_record_array ?R) = 2"
    by (simp_all add: two_query_request_def)
  have ref0: "merged_reference L2 2 [shard_a, shard_b] 0
      = [QueryResult 1 (Num (1/10)), QueryResult 5 (Num (2/10))]"
    by (simp add: shard_a_def shard_b_def merged_reference_def tagged_column_def rows_at_def
        enumerate_eq_zip)
  have ref1: "merged_reference L2 2 [shard_a, shard_b] 1
      = [QueryResult 4 (Num (3/10)), QueryResult 2 (Num (4/10))]"
    by (simp add: shard_a_def shard_b_def merged_reference_def tagged_column_def rows_at_def
        enumerate_eq_zip)
  from search_blocks_in_order [OF b1 b2 b3 b4 d, THEN conjunct2] ne wf nm
  obtain results where
    r1: "fst (Search ?E ?R Map.empty) = Inr (TopKQueryResultList (Status SUCCESS ''Success'') results)"
    and r2: "length results = length (query_record_array ?R)"
    and r3: "\<forall>p<length (query_record_array ?R).
        query_result_arrays (results ! p)
          = merged_reference (metric_type (descriptor ?E ?R Map.empty)) (nat (req_topk ?R))
              (sub_results ?E ?R) p"
    by blast
  from r3 have "query_result_arrays (results ! 0) = merged_reference L2 2 [shard_a, shard_b] 0"
    and "query_result_arrays (results ! 1) = merged_reference L2 2 [shard_a, shard_b] 1"
    by (simp_all add: m k nq sr)
  with ref0 ref1 have r0: "query_result_arrays (results ! 0)
        = [QueryResult 1 (Num (1/10)), QueryResult 5 (Num (2/10))]"
    and r1': "query_result_arrays (results ! 1)
        = [QueryResult 4 (Num (3/10)), QueryResult 2 (Num (4/10))]"
    by simp_all
  have w: "list_all (\<lambda>P. \<not> is_tuple P \<and> length (blocks_of P) = length (query_record_array ?R))
      (sub_results ?E ?R)"
    using wf by (simp only: list_all_iff)
  from r2 nq have r2': "length results = 2" by simp
  from b1 b2 b3 b4 ok sr w nm r1 r2' r0 r1' show ?thesis
    by blast
qed

text \<open>
  C2 as the spec words it fails on an empty routing plan: a Search with one query vector
  on a table for which no shard is planned answers Success with no block, not with one
  empty block.
\<close>

theorem empty_plan_returns_no_block:
  "Search demo_env (SearchParam ''t1'' [[Num 1, Num 2, Num 3, Num 4]] [] 3 16) Map.empty
     = (Inr (TopKQueryResultList (Status 0 ''Success'') []),
        [''t1'' \<mapsto> TableSchema ''t1'' 4 1024 L2],
        [DescribeTable ''t1'', Routing ''t1''])
   \<and> length (query_record_array (SearchParam ''t1'' [[Num 1, Num 2, Num 3, Num 4]] [] 3 16)) = 1"
  by (simp add: Search_def demo_env_def do_query_def do_merge_def MAX_TOPK_def MAX_NPROBE_def
      OK_def SUCCESS_def Let_def)

section \<open>Merging in groups\<close>

text \<open>
  C7, as the code has it: for partials that are not tuples and whose distances are numbers
  (no NaN), with the same K and metric throughout, merging each group and then merging
  the group results gives exactly the result of merging the groups' partials at once in
  the order of the groups; merging the same partials at once in any other order gives the
  same status and, block by block, the same distances (the rows can differ only among
  rows tied on distance); and the fold over the partials equals the reference that
  concatenates all, sorts and truncates.
\<close>

theorem merge_regrouping:
  assumes "\<forall>P\<in>set (concat groups). \<not> is_tuple P"
    and "numeric_partials (concat groups)"
    and "mset ps = mset (concat groups)"
  shows "do_merge (map (\<lambda>g. as_partial (do_merge g (int K) (metric = IP))) groups)
           (int K) (metric = IP)
         = do_merge (concat groups) (int K) (metric = IP)
       \<and> (concat groups = ps \<longrightarrow>
            do_merge (map (\<lambda>g. as_partial (do_merge g (int K) (metric = IP))) groups)
              (int K) (metric = IP)
            = do_merge ps (int K) (metric = IP))
       \<and> fst (do_merge ps (int K) (metric = IP))
           = fst (do_merge (concat groups) (int K) (metric = IP))
       \<and> block_distances (snd (do_merge ps (int K) (metric = IP)))
           = block_distances (snd (do_merge (concat groups) (int K) (metric = IP)))
       \<and> snd (do_merge ps (int K) (metric = IP))
           = map (\<lambda>p. TopKQueryResult (merged_reference metric K ps p)) [0..<max_nq ps]"
proof -
  let ?rev = "metric = IP"
  have a: "do_merge (map (\<lambda>g. as_partial (do_merge g (int K) ?rev)) groups) (int K) ?rev
      = do_merge (concat groups) (int K) ?rev"
    using assms(1,2) by (rule merge_regrouped)
  have b: "fst (do_merge ps (int K) ?rev) = fst (do_merge (concat groups) (int K) ?rev)
      \<and> block_distances (snd (do_merge ps (int K) ?rev))
        = block_distances (snd (do_merge (concat groups) (int K) ?rev))"
    using assms(3,1,2) by (rule merge_permuted)
  from assms(3) have "set ps = set (concat groups)" by (rule mset_eq_setD)
  with assms(1,2) have "\<forall>P\<in>set ps. \<not> is_tuple P" and "numeric_partials ps"
    by (simp_all add: numeric_partials_iff)
  then have c: "snd (do_merge ps (int K) ?rev)
      = map (\<lambda>p. TopKQueryResult (merged_reference metric K ps p)) [0..<max_nq ps]"
    by (simp add: do_merge_numeric_any merged_reference_stable)
  from a b c show ?thesis by simp
qed

theorem merge_regrouping_witness:
  "list_all (\<lambda>P. \<not> is_tuple P) (concat [[shard_a], [shard_b]])
   \<and> numeric_partials (concat [[shard_a], [shard_b]])
   \<and> mset [shard_b, shard_a] = mset (concat [[shard_a], [shard_b]])
   \<and> do_merge (map (\<lambda>g. as_partial (do_merge g (int 1) (L2 = IP))) [[shard_a], [shard_b]])
        (int 1) (L2 = IP)
      = do_merge (concat [[shard_a], [shard_b]]) (int 1) (L2 = IP)
   \<and> block_distances (snd (do_merge [shard_b, shard_a] (int 1) (L2 = IP)))
      = block_distances (snd (do_merge (concat [[shard_a], [shard_b]]) (int 1) (L2 = IP)))
   \<and> snd (do_merge [shard_b, shard_a] (int 1) (L2 = IP))
      = map (\<lambda>p. TopKQueryResult (merged_reference L2 1 [shard_b, shard_a] p))
          [0..<max_nq [shard_b, shard_a]]"
proof -
  have h1: "\<forall>P\<in>set (concat [[shard_a], [shard_b]]). \<not> is_tuple P"
    by (simp add: shard_a_def shard_b_def)
  have h2: "numeric_partials (concat [[shard_a], [shard_b]])"
    by (simp add: shard_a_def shard_b_def numeric_partials_def numeric_rows_def)
  have h3: "mset [shard_b, shard_a] = mset (concat [[shard_a], [shard_b]])"
    by simp
  have w1: "list_all (\<lambda>P. \<not> is_tuple P) (concat [[shard_a], [shard_b]])"
    using h1 by (simp only: list_all_iff)
  note r = merge_regrouping [OF h1 h2 h3, of 1 L2]
  from w1 h2 h3 r show ?thesis
    by blast
qed

text \<open>
  C7 as the spec words it, for every set of partials, fails when a distance is NaN: with
  K = 1, merging three one-row partials at distances 1, NaN and 0 at once keeps the row at
  distance 0, while merging the first alone and the other two together, and then the two
  results, keeps the row at distance 1.
\<close>

theorem regrouping_with_nan_differs:
  "do_merge
     [Response (TopKQueryResultList (Status 0 ''OK'') [TopKQueryResult [QueryResult 1 (Num 1)]]),
      Response (TopKQueryResultList (Status 0 ''OK'') [TopKQueryResult [QueryResult 2 NaN]]),
      Response (TopKQueryResultList (Status 0 ''OK'') [TopKQueryResult [QueryResult 3 (Num 0)]])]
     1 False
   = (Status 0 ''Success'', [TopKQueryResult [QueryResult 3 (Num 0)]])
   \<and> do_merge
     [as_partial (do_merge
        [Response (TopKQueryResultList (Status 0 ''OK'') [TopKQueryResult [QueryResult 1 (Num 1)]])]
        1 False),
      as_partial (do_merge
        [Response (TopKQueryResultList (Status 0 ''OK'') [TopKQueryResult [QueryResult 2 NaN]]),
         Response (TopKQueryResultList (Status 0 ''OK'') [TopKQueryResult [QueryResult 3 (Num 0)]])]
        1 False)]
     1 False
   = (Status 0 ''Success'', [TopKQueryResult [QueryResult 1 (Num 1)]])"
  by (simp add: do_merge_def as_partial_def SUCCESS_def enumerate_eq_zip py_slice_to_def
      py_sorted_def sort_lt_def dict_get_def)

section \<open>Error partials\<close>

text \<open>
  C3, as the code has it: the merger stops at the first tuple-shaped partial it meets and
  returns that tuple's status with an empty result list. When the input holds an error
  partial \<open>(status, [])\<close> whose status is not Success and no tuple-shaped partial stands
  before it, the overall status is the status of that error partial and the result list
  is empty, whatever follows it.
\<close>

theorem first_error_partial_returned:
  assumes "\<forall>P\<in>set pre. \<not> is_tuple P" and "\<not> OK st"
  shows "do_merge (pre @ Tuple st [] # post) topk reverse = (st, [])"
  using assms(1) by (simp add: do_merge_def merge_files_first_tuple)

theorem first_error_partial_returned_witness:
  "list_all (\<lambda>P. \<not> is_tuple P)
     [Response (TopKQueryResultList (Status 0 ''OK'') [TopKQueryResult [QueryResult 1 (Num 2)]])]
   \<and> \<not> OK (Status 2 ''Unavailable'')
   \<and> do_merge
        ([Response (TopKQueryResultList (Status 0 ''OK'')
            [TopKQueryResult [QueryResult 1 (Num 2)]])]
         @ Tuple (Status 2 ''Unavailable'') [] # [Tuple (Status 0 ''Success'') []]) 5 False
     = (Status 2 ''Unavailable'', [])"
  using first_error_partial_returned
    [of "[Response (TopKQueryResultList (Status 0 ''OK'')
            [TopKQueryResult [QueryResult 1 (Num 2)]])]"
        "Status 2 ''Unavailable''" "[Tuple (Status 0 ''Success'') []]" 5 False]
  by (simp add: OK_def SUCCESS_def)

text \<open>
  C3 as the spec words it fails: a tuple that carries Success and stands before the
  error partial decides the outcome, and the error is not reported.
\<close>

theorem success_tuple_hides_error:
  "do_merge [Tuple (Status 0 ''Success'') [], Tuple (Status 2 ''Unavailable'') []] 5 False
     = (Status 0 ''Success'', [])
   \<and> fst (do_merge [Tuple (Status 0 ''Success'') [], Tuple (Status 2 ''Unavailable'') []] 5 False)
     \<noteq> Status 2 ''Unavailable''"
  by (simp add: do_merge_def)

text \<open>
  C9: when the first tuple-shaped element of the input carries a Success status, the
  merger returns that Success status with an empty result list; the rows of the
  partials before and after it are dropped. Only the shape of the element is tested.
\<close>

theorem success_tuple_discards_rows:
  assumes "\<forall>P\<in>set pre. \<not> is_tuple P" and "error_code st = SUCCESS"
  shows "do_merge (pre @ Tuple st payload # post) topk reverse = (st, [])
         \<and> OK (fst (do_merge (pre @ Tuple st payload # post) topk reverse))"
  using assms by (simp add: do_merge_def merge_files_first_tuple OK_def)

theorem success_tuple_discards_rows_witness:
  "list_all (\<lambda>P. \<not> is_tuple P)
     [Response (TopKQueryResultList (Status 0 ''OK'') [TopKQueryResult [QueryResult 1 (Num 2)]])]
   \<and> error_code (Status 0 ''Success'') = SUCCESS
   \<and> do_merge
        ([Response (TopKQueryResultList (Status 0 ''OK'')
            [TopKQueryResult [QueryResult 1 (Num 2)]])]
         @ Tuple (Status 0 ''Success'') [TopKQueryResult [QueryResult 5 (Num 1)]]
         # [Response (TopKQueryResultList (Status 0 ''OK'')
              [TopKQueryResult [QueryResult 3 (Num 4)]])]) 5 True
     = (Status 0 ''Success'', [])"
  using success_tuple_discards_rows
    [of "[Response (TopKQueryResultList (Status 0 ''OK'')
            [TopKQueryResult [QueryResult 1 (Num 2)]])]"
        "Status 0 ''Success''" "[TopKQueryResult [QueryResult 5 (Num 1)]]"
        "[Response (TopKQueryResultList (Status 0 ''OK'')
              [TopKQueryResult [QueryResult 3 (Num 4)]])]" 5 True]
  by (simp add: SUCCESS_def)

section \<open>Partials of unequal length\<close>

text \<open>
  C6, as the code has it: partials that hold different numbers of blocks are not taken
  for malformed. As long as no partial is a tuple the merger returns Success, with as
  many blocks as the longest partial holds.
\<close>

theorem ragged_partials_succeed:
  assumes "ps \<noteq> []" and "\<forall>P\<in>set ps. \<not> is_tuple P"
  shows "fst (do_merge ps topk reverse) = Status SUCCESS ''Success''
         \<and> length (snd (do_merge ps topk reverse)) = max_nq ps"
  using assms by (simp add: do_merge_tuple_free)

theorem ragged_partials_succeed_witness:
  "[Response (TopKQueryResultList (Status 0 ''OK'')
        [TopKQueryResult [QueryResult 1 (Num 1)], TopKQueryResult [QueryResult 2 NaN]]),
      Response (TopKQueryResultList (Status 0 ''OK'') [TopKQueryResult [QueryResult 3 (Num 3)]])] \<noteq> []
   \<and> list_all (\<lambda>P. \<not> is_tuple P) [Response (TopKQueryResultList (Status 0 ''OK'')
        [TopKQueryResult [QueryResult 1 (Num 1)], TopKQueryResult [QueryResult 2 NaN]]),
      Response (TopKQueryResultList (Status 0 ''OK'') [TopKQueryResult [QueryResult 3 (Num 3)]])]
   \<and> fst (do_merge [Response (TopKQueryResultList (Status 0 ''OK'')
        [TopKQueryResult [QueryResult 1 (Num 1)], TopKQueryResult [QueryResult 2 NaN]]),
      Response (TopKQueryResultList (Status 0 ''OK'') [TopKQueryResult [QueryResult 3 (Num 3)]])] 4 True)
      = Status SUCCESS ''Success''
   \<and> length (snd (do_merge [Response (TopKQueryResultList (Status 0 ''OK'')
        [TopKQueryResult [QueryResult 1 (Num 1)], TopKQueryResult [QueryResult 2 NaN]]),
      Response (TopKQueryResultList (Status 0 ''OK'') [TopKQueryResult [QueryResult 3 (Num 3)]])] 4 True))
      = 2"
  using ragged_partials_succeed
    [of "[Response (TopKQueryResultList (Status 0 ''OK'')
        [TopKQueryResult [QueryResult 1 (Num 1)], TopKQueryResult [QueryResult 2 NaN]]),
      Response (TopKQueryResultList (Status 0 ''OK'') [TopKQueryResult [QueryResult 3 (Num 3)]])]" 4 True]
  by (simp add: max_nq_def)

text \<open>
  C6 as the spec words it fails: a partial of two blocks merged with a partial of one
  block gives Success and two blocks, not an Internal error.
\<close>

theorem ragged_partials_not_internal:
  "do_merge
     [Response (TopKQueryResultList (Status 0 ''OK'')
        [TopKQueryResult [QueryResult 1 (Num 1)], TopKQueryResult [QueryResult 2 (Num 2)]]),
      Response (TopKQueryResultList (Status 0 ''OK'') [TopKQueryResult [QueryResult 3 (Num 3)]])]
     5 False
   = (Status 0 ''Success'',
      [TopKQueryResult [QueryResult 1 (Num 1), QueryResult 3 (Num 3)],
       TopKQueryResult [QueryResult 2 (Num 2)]])"
  by (simp add: do_merge_def SUCCESS_def enumerate_eq_zip py_slice_to_def py_sorted_def
      sort_lt_def dict_get_def)

section \<open>Rows whose distance is NaN\<close>

text \<open>
  C8, as the code has it: a row whose distance is NaN gets no place of its own. The sort
  only asks whether one distance is less than another, which is false as soon as one of
  them is NaN. So a block of a single partial in which no row's distance is less than
  the distance of the row before it (for L2; greater than, for IP) comes back in the
  order it arrived, cut to K, wherever its NaN rows stand.
\<close>

theorem nan_rows_stay_in_place:
  assumes "\<forall>b\<in>set blocks.
             successively (\<lambda>r s. \<not> (if reverse then float_lt (distance r) (distance s)
                                      else float_lt (distance s) (distance r)))
               (query_result_arrays b)"
  shows "do_merge [Response (TopKQueryResultList st blocks)] (int k) reverse
         = (Status SUCCESS ''Success'',
            map (\<lambda>b. TopKQueryResult (take k (query_result_arrays b))) blocks)"
proof -
  let ?P = "Response (TopKQueryResultList st blocks)"
  have nq: "max_nq [?P] = length blocks"
    by (simp add: max_nq_def)
  have "fold_column (int k) reverse p [?P] [] = take k (query_result_arrays (blocks ! p))"
    if "p < length blocks" for p
  proof -
    from that assms have "py_sorted distance reverse (query_result_arrays (blocks ! p))
        = query_result_arrays (blocks ! p)"
      by (intro py_sorted_no_descent) simp
    with that show ?thesis
      by (simp add: merge_step_def py_slice_to_nat)
  qed
  then have "map (\<lambda>p. TopKQueryResult (fold_column (int k) reverse p [?P] [])) [0..<length blocks]
      = map (\<lambda>b. TopKQueryResult (take k (query_result_arrays b))) blocks"
    by (intro nth_equalityI) simp_all
  then show ?thesis
    by (simp add: do_merge_tuple_free nq)
qed

theorem nan_rows_stay_in_place_witness:
  "list_all
     (\<lambda>b. successively (\<lambda>r s. \<not> (if False then float_lt (distance r) (distance s)
                                    else float_lt (distance s) (distance r)))
            (query_result_arrays b))
     [TopKQueryResult [QueryResult 7 (Num 2), QueryResult 8 NaN, QueryResult 9 (Num 1)]]
   \<and> do_merge [Response (TopKQueryResultList (Status 0 ''OK'')
         [TopKQueryResult [QueryResult 7 (Num 2), QueryResult 8 NaN, QueryResult 9 (Num 1)]])]
        (int 3) False
     = (Status SUCCESS ''Success'',
        [TopKQueryResult [QueryResult 7 (Num 2), QueryResult 8 NaN, QueryResult 9 (Num 1)]])"
  using nan_rows_stay_in_place
    [of "[TopKQueryResult [QueryResult 7 (Num 2), QueryResult 8 NaN, QueryResult 9 (Num 1)]]"
        False "Status 0 ''OK''" 3]
  by simp

text \<open>
  C8 as the spec words it fails: the block \<open>[NaN, 1]\<close> of a single partial comes back
  with the NaN row first, under L2 and under IP.
\<close>

theorem nan_row_first_in_both_metrics:
  "query_result_arrays (hd (snd (do_merge
      [Response (TopKQueryResultList (Status 0 ''OK'')
         [TopKQueryResult [QueryResult 1 NaN, QueryResult 2 (Num 1)]])] 2 False)))
     = [QueryResult 1 NaN, QueryResult 2 (Num 1)]
   \<and> query_result_arrays (hd (snd (do_merge
      [Response (TopKQueryResultList (Status 0 ''OK'')
         [TopKQueryResult [QueryResult 1 NaN, QueryResult 2 (Num 1)]])] 2 True)))
     = [QueryResult 1 NaN, QueryResult 2 (Num 1)]"
  by (simp add: do_merge_def SUCCESS_def enumerate_eq_zip py_slice_to_def py_sorted_def
      sort_lt_def dict_get_def)

section \<open>The checks of \<open>Search\<close>\<close>

text \<open>
  C4: a Search request whose K is outside \<open>0 < K \<le> 2048\<close> or whose nprobe is outside
  \<open>0 < nprobe \<le> 2048\<close> ends with an error of kind InvalidArgument, and no backend call
  is made: no describe_table, no routing, no sub-query. The descriptor cache is left as
  it was.
\<close>

theorem search_rejects_out_of_range:
  assumes "\<not> (0 < req_topk request \<and> req_topk request \<le> 2048)
           \<or> \<not> (0 < req_nprobe request \<and> req_nprobe request \<le> 2048)"
  shows "\<exists>e. Search env request cache = (Inl e, cache, []) \<and> kind_of e = InvalidArgument"
  using assms by (auto simp add: Search_def MAX_TOPK_def MAX_NPROBE_def Let_def)

theorem search_rejects_out_of_range_witness:
  "\<not> (0 < req_topk (SearchParam ''t1'' [[Num 1]] [] 0 16)
        \<and> req_topk (SearchParam ''t1'' [[Num 1]] [] 0 16) \<le> 2048)
   \<and> (\<exists>e. Search demo_env (SearchParam ''t1'' [[Num 1]] [] 0 16) Map.empty
             = (Inl e, Map.empty, [])
          \<and> kind_of e = InvalidArgument)"
  using search_rejects_out_of_range [of "SearchParam ''t1'' [[Num 1]] [] 0 16" demo_env Map.empty]
  by simp

text \<open>
  C5: a Search request within the bounds, on a table whose descriptor is not cached and
  whose describe_table lookup returns a status that is not OK, fails with an error of
  kind NotFound. The lookup is the only backend call made: no routing, no sub-query.
\<close>

theorem search_unknown_table:
  assumes "0 < req_topk request" and "req_topk request \<le> 2048"
    and "0 < req_nprobe request" and "req_nprobe request \<le> 2048"
    and "cache (table_name request) = None"
    and "\<not> OK (fst (describe_table env (table_name request)))"
  shows "\<exists>e. Search env request cache = (Inl e, cache, [DescribeTable (table_name request)])
             \<and> kind_of e = NotFound"
  using assms
  by (auto simp add: Search_def MAX_TOPK_def MAX_NPROBE_def Let_def split: prod.splits)

theorem search_unknown_table_witness:
  "0 < req_topk (SearchParam ''t2'' [[Num 1]] [] 3 16)
   \<and> req_topk (SearchParam ''t2'' [[Num 1]] [] 3 16) \<le> 2048
   \<and> 0 < req_nprobe (SearchParam ''t2'' [[Num 1]] [] 3 16)
   \<and> req_nprobe (SearchParam ''t2'' [[Num 1]] [] 3 16) \<le> 2048
   \<and> (Map.empty :: string \<rightharpoonup> TableSchema) (table_name (SearchParam ''t2'' [[Num 1]] [] 3 16)) = None
   \<and> \<not> OK (fst (describe_table demo_env (table_name (SearchParam ''t2'' [[Num 1]] [] 3 16))))
   \<and> (\<exists>e. Search demo_env (SearchParam ''t2'' [[Num 1]] [] 3 16) Map.empty
             = (Inl e, Map.empty, [DescribeTable ''t2''])
          \<and> kind_of e = NotFound)"
  using search_unknown_table [of "SearchParam ''t2'' [[Num 1]] [] 3 16" Map.empty demo_env]
  by (simp add: demo_env_def OK_def SUCCESS_def)

text \<open>
  C10: Search changes the descriptor cache in one case only, a miss whose describe_table
  lookup succeeds, and then it adds the looked-up descriptor under the table's name.
  When the lookup fails the cache is left as it was, and an entry that is present
  before the call is present, unchanged, after it.
\<close>

theorem search_cache_frame:
  "(fst (snd (Search env request cache)) = cache
    \<or> (cache (table_name request) = None
       \<and> OK (fst (describe_table env (table_name request)))
       \<and> fst (snd (Search env request cache))
           = cache(table_name request \<mapsto> snd (describe_table env (table_name request)))))
   \<and> (\<not> OK (fst (describe_table env (table_name request)))
        \<longrightarrow> fst (snd (Search env request cache)) = cache)
   \<and> (\<forall>k v. cache k = Some v \<longrightarrow> fst (snd (Search env request cache)) k = Some v)"
  by (auto simp add: Search_def Let_def split: prod.splits option.splits)

theorem search_cache_frame_witness:
  "\<not> OK (fst (describe_table demo_env (table_name (SearchParam ''t2'' [[Num 1]] [] 3 16))))
   \<and> [''t0'' \<mapsto> TableSchema ''t0'' 8 1024 IP] ''t0'' = Some (TableSchema ''t0'' 8 1024 IP)
   \<and> fst (snd (Search demo_env (SearchParam ''t2'' [[Num 1]] [] 3 16)
                 [''t0'' \<mapsto> TableSchema ''t0'' 8 1024 IP]))
       = [''t0'' \<mapsto> TableSchema ''t0'' 8 1024 IP]
   \<and> fst (snd (Search demo_env (SearchParam ''t2'' [[Num 1]] [] 3 16)
                 [''t0'' \<mapsto> TableSchema ''t0'' 8 1024 IP])) ''t0''
       = Some (TableSchema ''t0'' 8 1024 IP)"
  using search_cache_frame
    [of demo_env "SearchParam ''t2'' [[Num 1]] [] 3 16" "[''t0'' \<mapsto> TableSchema ''t0'' 8 1024 IP]"]
  by (simp add: demo_env_def OK_def SUCCESS_def)

end
